theory Spec2Isabelle
  imports Complex_Main
begin

section \<open>Data model\<close>

text \<open>
  The exporter works on Python floats; they are idealised here as \<^typ>\<open>real\<close>.
  A point is the pair of its coordinates, an exported vertex carries the colour
  string of its shape as a third component.
\<close>

type_synonym point = "real \<times> real"

type_synonym vertex = "real \<times> real \<times> string"

datatype error = IndexError | ZeroDivisionError | ValueError | ClipperException

text \<open>
  A clipped cell is a dictionary with the four bounding-box entries and the list of
  rings under \<^verbatim>\<open>'vertices'\<close>; \<^verbatim>\<open>triangulate_polygon\<close> replaces that entry by
  \<^verbatim>\<open>'objects'\<close>, and the exporter replaces \<^verbatim>\<open>'objects'\<close> by one vertex buffer and one
  index list.
\<close>

record frame =
  boundingBoxX :: real
  boundingBoxY :: real
  boundingBoxWidth :: real
  boundingBoxHeight :: real

record cell = frame +
  vertices :: "vertex list list"

record tri_object =
  obj_vertices :: "vertex list"
  obj_indicies :: "(nat \<times> nat \<times> nat) list"

record tri_cell = frame +
  objects :: "tri_object list"

record mesh_cell = frame +
  mesh_vertices :: "vertex list"
  mesh_indicies :: "(nat \<times> nat \<times> nat) list"

section \<open>Path metrics (util.py)\<close>

text \<open>
  \<^verbatim>\<open>ensure_right_pointing_vertices\<close> reads \<^verbatim>\<open>vertices[1][0]\<close> and
  \<^verbatim>\<open>vertices[0][0]\<close>; with fewer than two entries the read raises IndexError.
  The slice \<^verbatim>\<open>vertices[::-1]\<close> is the reversed list.
\<close>

fun ensure_right_pointing_vertices :: "point list \<Rightarrow> error + point list" where
  "ensure_right_pointing_vertices (v0 # v1 # vs) =
     (if fst v1 > fst v0 then Inr (v0 # v1 # vs) else Inr (rev (v0 # v1 # vs)))"
| "ensure_right_pointing_vertices vs = Inl IndexError"

text \<open>
  \<^verbatim>\<open>intersect_segments\<close>: the determinant and the two interpolation parameters are
  named as in the source; \<^verbatim>\<open>None\<close> is the source's \<^verbatim>\<open>None\<close>.
\<close>

definition seg_d :: "point \<Rightarrow> point \<Rightarrow> point \<Rightarrow> point \<Rightarrow> real" where
  "seg_d p1 p2 p3 p4 =
     (snd p4 - snd p3) * (fst p2 - fst p1) - (fst p4 - fst p3) * (snd p2 - snd p1)"

definition seg_ua :: "point \<Rightarrow> point \<Rightarrow> point \<Rightarrow> point \<Rightarrow> real" where
  "seg_ua p1 p2 p3 p4 =
     ((fst p4 - fst p3) * (snd p1 - snd p3) - (snd p4 - snd p3) * (fst p1 - fst p3))
       / seg_d p1 p2 p3 p4"

definition seg_ub :: "point \<Rightarrow> point \<Rightarrow> point \<Rightarrow> point \<Rightarrow> real" where
  "seg_ub p1 p2 p3 p4 =
     ((fst p2 - fst p1) * (snd p1 - snd p3) - (snd p2 - snd p1) * (fst p1 - fst p3))
       / seg_d p1 p2 p3 p4"

definition intersect_segments :: "point \<Rightarrow> point \<Rightarrow> point \<Rightarrow> point \<Rightarrow> point option" where
  "intersect_segments p1 p2 p3 p4 =
     (if seg_d p1 p2 p3 p4 = 0 then None
      else if seg_ua p1 p2 p3 p4 < 0 \<or> seg_ua p1 p2 p3 p4 > 1 then None
      else if seg_ub p1 p2 p3 p4 < 0 \<or> seg_ub p1 p2 p3 p4 > 1 then None
      else Some (fst p1 + (fst p2 - fst p1) * seg_ua p1 p2 p3 p4,
                 snd p1 + (snd p2 - snd p1) * seg_ua p1 p2 p3 p4))"

definition point_point_dst :: "point \<Rightarrow> point \<Rightarrow> real" where
  "point_point_dst p1 p2 = sqrt ((fst p1 - fst p2) ^ 2 + (snd p1 - snd p2) ^ 2)"

section \<open>Curve sampling (util.py)\<close>

text \<open>
  A node of a cubic super-path is the triple (incoming handle, point, outgoing handle);
  \<^verbatim>\<open>getbez\<close> builds the four control points of the segment between two nodes.
\<close>

type_synonym bez = "point \<times> point \<times> point \<times> point"

type_synonym cspnode = "point \<times> point \<times> point"

definition getbez :: "cspnode \<Rightarrow> cspnode \<Rightarrow> bez" where
  "getbez sp1 sp2 = (fst (snd sp1), snd (snd sp1), fst sp2, fst (snd sp2))"

text \<open>
  The module \<^verbatim>\<open>lib/inkex/bezier.py\<close> is not among the sources. The three functions
  that \<^verbatim>\<open>csp_sub_points_dst\<close> calls are therefore parameters of the model: evaluation
  of the curve at a parameter, the arc length of a segment, and the inversion from a
  fraction of the arc length to a parameter.
\<close>

record bezier_lib =
  bezierpointatt :: "bez \<Rightarrow> real \<Rightarrow> point"
  bezierlength :: "bez \<Rightarrow> real"
  beziertatlength :: "bez \<Rightarrow> real \<Rightarrow> real"

text \<open>
  The inner \<^verbatim>\<open>while dst_to_next_point < length_left\<close> loop. Its state is
  \<^verbatim>\<open>dst_to_next_point\<close>, \<^verbatim>\<open>length_left\<close>, \<^verbatim>\<open>point_length\<close> and the point list.
  With a spacing that is not positive the loop need not end, so it is a partial
  function: \<open>None\<close> is a run that never returns. The division
  \<^verbatim>\<open>point_length/length\<close> raises ZeroDivisionError for a zero length (\<open>len\<close> here).
\<close>

partial_function (option) dst_loop ::
  "bezier_lib \<Rightarrow> bez \<Rightarrow> real \<Rightarrow> real \<Rightarrow> real \<Rightarrow> real \<Rightarrow> real \<Rightarrow> point list
     \<Rightarrow> (error + point list) option" where
  "dst_loop lib bez point_dst len dst_to_next_point length_left point_length points =
     (if dst_to_next_point < length_left then
        (if len = 0 then Some (Inl ZeroDivisionError)
         else dst_loop lib bez point_dst len point_dst
                (length_left - dst_to_next_point) (point_length + dst_to_next_point)
                (if beziertatlength lib bez ((point_length + dst_to_next_point) / len) > 1 / 10000
                    \<and> beziertatlength lib bez ((point_length + dst_to_next_point) / len) < 9999 / 10000
                 then points @ [bezierpointatt lib bez
                        (beziertatlength lib bez ((point_length + dst_to_next_point) / len))]
                 else points))
      else Some (Inr points))"

text \<open>
  The body of the outer loop for the segment from \<open>sp1\<close> to \<open>sp2\<close>: the start point is
  appended, and the inner loop runs only behind the guard
  \<^verbatim>\<open>difference > 0.01\<close>. The statement \<^verbatim>\<open>dst_to_next_point -= length_left\<close> after the
  inner loop has no effect on the result, because the variable is assigned
  \<^verbatim>\<open>point_dst\<close> again at the top of the next iteration; it is left out.
\<close>

definition segment_points ::
  "bezier_lib \<Rightarrow> real \<Rightarrow> bez \<Rightarrow> point list \<Rightarrow> (error + point list) option" where
  "segment_points lib point_dst bez points =
     (if \<bar>point_point_dst (bezierpointatt lib bez 0) (bezierpointatt lib bez 1)
           - bezierlength lib bez\<bar> > 1 / 100
      then dst_loop lib bez point_dst (bezierlength lib bez) point_dst (bezierlength lib bez) 0
             (points @ [bezierpointatt lib bez 0])
      else Some (Inr (points @ [bezierpointatt lib bez 0])))"

text \<open>
  The outer loop \<^verbatim>\<open>while i <= len(csp_sub) - 1\<close> visits the consecutive pairs of
  nodes; \<^verbatim>\<open>i == len(csp_sub)\<close> after the increment holds at the last pair only.
\<close>

fun csp_walk ::
  "bezier_lib \<Rightarrow> real \<Rightarrow> bool \<Rightarrow> cspnode list \<Rightarrow> point list \<Rightarrow> (error + point list) option" where
  "csp_walk lib point_dst add_last (sp1 # sp2 # rest) points =
     (case segment_points lib point_dst (getbez sp1 sp2) points of
        None \<Rightarrow> None
      | Some (Inl e) \<Rightarrow> Some (Inl e)
      | Some (Inr points') \<Rightarrow>
          csp_walk lib point_dst add_last (sp2 # rest)
            (if add_last \<and> rest = []
             then points' @ [bezierpointatt lib (getbez sp1 sp2) 1] else points'))"
| "csp_walk lib point_dst add_last csp_sub points = Some (Inr points)"

definition csp_sub_points_dst ::
  "bezier_lib \<Rightarrow> cspnode list \<Rightarrow> real \<Rightarrow> bool \<Rightarrow> (error + point list) option" where
  "csp_sub_points_dst lib csp_sub point_dst add_last = csp_walk lib point_dst add_last csp_sub []"

section \<open>Triangulation and flattening (triangulator.py, psjhill\_exporter.py)\<close>

text \<open>\<^verbatim>\<open>list.index\<close>: the position of the first equal entry, ValueError when there is none.\<close>

fun index_of :: "'a list \<Rightarrow> 'a \<Rightarrow> error + nat" where
  "index_of [] a = Inl ValueError"
| "index_of (x # xs) a =
     (if x = a then Inr 0
      else case index_of xs a of Inl e \<Rightarrow> Inl e | Inr i \<Rightarrow> Inr (Suc i))"

text \<open>
  The ear-clipping routine \<^verbatim>\<open>lib/tripy\<close> is not among the sources and is the parameter
  \<open>earclip\<close>: it maps a ring to a list of triangles, each a triple of points.
\<close>

type_synonym earclipper = "point list \<Rightarrow> (point \<times> point \<times> point) list"

fun triangle_indicies ::
  "point list \<Rightarrow> (point \<times> point \<times> point) list \<Rightarrow> error + (nat \<times> nat \<times> nat) list" where
  "triangle_indicies points [] = Inr []"
| "triangle_indicies points ((a, b, c) # ts) =
     (case index_of points a of Inl e \<Rightarrow> Inl e | Inr i \<Rightarrow>
     (case index_of points b of Inl e \<Rightarrow> Inl e | Inr j \<Rightarrow>
     (case index_of points c of Inl e \<Rightarrow> Inl e | Inr k \<Rightarrow>
     (case triangle_indicies points ts of Inl e \<Rightarrow> Inl e | Inr r \<Rightarrow> Inr ((i, j, k) # r)))))"

definition triangulate_ring :: "earclipper \<Rightarrow> vertex list \<Rightarrow> error + tri_object" where
  "triangulate_ring earclip vs =
     (case triangle_indicies (map (\<lambda>v. (fst v, fst (snd v))) vs)
             (earclip (map (\<lambda>v. (fst v, fst (snd v))) vs)) of
        Inl e \<Rightarrow> Inl e
      | Inr ixs \<Rightarrow> Inr \<lparr>obj_vertices = vs, obj_indicies = ixs\<rparr>)"

fun triangulate_rings :: "earclipper \<Rightarrow> vertex list list \<Rightarrow> error + tri_object list" where
  "triangulate_rings earclip [] = Inr []"
| "triangulate_rings earclip (vs # rest) =
     (case triangulate_ring earclip vs of Inl e \<Rightarrow> Inl e | Inr ob \<Rightarrow>
     (case triangulate_rings earclip rest of Inl e \<Rightarrow> Inl e | Inr obs \<Rightarrow> Inr (ob # obs)))"

fun triangulate_polygon :: "earclipper \<Rightarrow> cell list \<Rightarrow> error + tri_cell list" where
  "triangulate_polygon earclip [] = Inr []"
| "triangulate_polygon earclip (clip # rest) =
     (case triangulate_rings earclip (vertices clip) of Inl e \<Rightarrow> Inl e | Inr obs \<Rightarrow>
     (case triangulate_polygon earclip rest of Inl e \<Rightarrow> Inl e | Inr cs \<Rightarrow>
        Inr (\<lparr>boundingBoxX = boundingBoxX clip, boundingBoxY = boundingBoxY clip,
              boundingBoxWidth = boundingBoxWidth clip,
              boundingBoxHeight = boundingBoxHeight clip, objects = obs\<rparr> # cs)))"

text \<open>
  The single-shape path of \<^verbatim>\<open>recursively_iterate_layer\<close> flattens a cell with two
  comprehensions: all vertices of all objects, all index triples of all objects.
\<close>

definition flatten_single :: "tri_cell \<Rightarrow> mesh_cell" where
  "flatten_single clip =
     \<lparr>boundingBoxX = boundingBoxX clip, boundingBoxY = boundingBoxY clip,
      boundingBoxWidth = boundingBoxWidth clip, boundingBoxHeight = boundingBoxHeight clip,
      mesh_vertices = concat (map obj_vertices (objects clip)),
      mesh_indicies = concat (map obj_indicies (objects clip))\<rparr>"

text \<open>
  The shape-group path keeps \<^verbatim>\<open>start_indice\<close>, adds it to the three entries of every
  triple and advances it by the number of vertices of each object.
\<close>

fun group_indicies :: "nat \<Rightarrow> tri_object list \<Rightarrow> (nat \<times> nat \<times> nat) list" where
  "group_indicies start_indice [] = []"
| "group_indicies start_indice (ob # obs) =
     map (\<lambda>(i, j, k). (i + start_indice, j + start_indice, k + start_indice)) (obj_indicies ob)
       @ group_indicies (start_indice + length (obj_vertices ob)) obs"

definition flatten_group :: "tri_cell \<Rightarrow> mesh_cell" where
  "flatten_group clip =
     \<lparr>boundingBoxX = boundingBoxX clip, boundingBoxY = boundingBoxY clip,
      boundingBoxWidth = boundingBoxWidth clip, boundingBoxHeight = boundingBoxHeight clip,
      mesh_vertices = concat (map obj_vertices (objects clip)),
      mesh_indicies = group_indicies 0 (objects clip)\<rparr>"

section \<open>Grid clipping (clipper.py)\<close>

text \<open>
  The bounding box of inkex has the attributes \<^verbatim>\<open>left\<close>, \<^verbatim>\<open>top\<close>, \<^verbatim>\<open>width\<close> and
  \<^verbatim>\<open>height\<close>; the fields carry the prefix \<open>bb\<close> here.
\<close>

record bounding_box =
  bb_left :: real
  bb_top :: real
  bb_width :: real
  bb_height :: real

text \<open>
  \<^verbatim>\<open>pyclipper\<close> is an external library. Scaling both paths by \<open>2^31\<close>, executing the
  even-odd intersection and scaling the solution back is one parameter \<open>pc\<close> of the
  model: it maps the clip path and the subject path to the list of solution rings,
  and it is taken to return for every input, as it does on the proper rectangles of a
  positive grid size. The loops for a clipper that raises follow further down.
\<close>

type_synonym clipper = "point list \<Rightarrow> point list \<Rightarrow> point list list"

text \<open>
  \<^verbatim>\<open>point.append(vertices[0][2])\<close> runs once for every point of every ring of the
  solution; \<^verbatim>\<open>vertices[0]\<close> is read only if there is such a point, and raises
  IndexError for an empty polygon.
\<close>

definition add_color :: "vertex list \<Rightarrow> point list list \<Rightarrow> error + vertex list list" where
  "add_color polygon solution =
     (if concat solution = [] then Inr (map (\<lambda>object. []) solution)
      else (case polygon of
              [] \<Rightarrow> Inl IndexError
            | v # rest \<Rightarrow> Inr (map (map (\<lambda>p. (fst p, snd p, snd (snd v)))) solution)))"

text \<open>The body of the inner loop up to the dictionary that may be appended.\<close>

definition clip_cell ::
  "clipper \<Rightarrow> vertex list \<Rightarrow> real \<Rightarrow> real \<Rightarrow> real \<Rightarrow> real \<Rightarrow> error + cell" where
  "clip_cell pc polygon x y x2 y2 =
     (case add_color polygon
             (pc [(x, y), (x2, y), (x2, y2), (x, y2)] (map (\<lambda>v. (fst v, fst (snd v))) polygon)) of
        Inl e \<Rightarrow> Inl e
      | Inr solution \<Rightarrow>
          Inr \<lparr>boundingBoxX = x, boundingBoxY = y,
               boundingBoxWidth = x2 - x, boundingBoxHeight = y2 - y,
               vertices = solution\<rparr>)"

text \<open>
  The two nested \<^verbatim>\<open>while\<close> loops of \<^verbatim>\<open>clip_polygon\<close>. Neither has a bound on the
  number of its iterations in the source, so both are partial functions; \<open>None\<close> is a
  run that never returns.
\<close>

partial_function (option) clip_loop_y ::
  "clipper \<Rightarrow> vertex list \<Rightarrow> bounding_box \<Rightarrow> real \<Rightarrow> bool \<Rightarrow> real \<Rightarrow> real \<Rightarrow> real
     \<Rightarrow> cell list \<Rightarrow> (error + cell list) option" where
  "clip_loop_y pc polygon bb grid_size optimize x x2 y output =
     (if y < bb_top bb + bb_height bb then
        (case clip_cell pc polygon x y x2 (min (y + grid_size) (bb_top bb + bb_height bb)) of
           Inl e \<Rightarrow> Some (Inl e)
         | Inr c \<Rightarrow>
             clip_loop_y pc polygon bb grid_size optimize x x2 (y + grid_size)
               (if length (vertices c) > 0 \<or> \<not> optimize then output @ [c] else output))
      else Some (Inr output))"

partial_function (option) clip_loop_x ::
  "clipper \<Rightarrow> vertex list \<Rightarrow> bounding_box \<Rightarrow> real \<Rightarrow> bool \<Rightarrow> real
     \<Rightarrow> cell list \<Rightarrow> (error + cell list) option" where
  "clip_loop_x pc polygon bb grid_size optimize x output =
     (if x < bb_left bb + bb_width bb then
        Option.bind
          (clip_loop_y pc polygon bb grid_size optimize x
             (min (x + grid_size) (bb_left bb + bb_width bb)) (bb_top bb) output)
          (\<lambda>r. case r of
                  Inl e \<Rightarrow> Some (Inl e)
                | Inr output' \<Rightarrow>
                    clip_loop_x pc polygon bb grid_size optimize (x + grid_size) output')
      else Some (Inr output))"

definition clip_polygon ::
  "clipper \<Rightarrow> vertex list \<Rightarrow> bounding_box \<Rightarrow> real \<Rightarrow> bool \<Rightarrow> (error + cell list) option" where
  "clip_polygon pc polygon bb grid_size optimize =
     clip_loop_x pc polygon bb grid_size optimize (bb_left bb) []"

text \<open>
  \<^verbatim>\<open>pyclipper\<close> raises ClipperException when \<^verbatim>\<open>AddPath\<close> refuses a path (a closed path
  needs three distinct points) and when a coordinate lies outside its range. The loops
  above take the clipper to return; the loops below are the same loops of
  \<^verbatim>\<open>clip_polygon\<close> for a clipper that may raise, \<open>None\<close> being the ClipperException. The
  exception leaves the function at once, as any other does.
\<close>

type_synonym raising_clipper = "point list \<Rightarrow> point list \<Rightarrow> point list list option"

definition clip_cell_exc ::
  "raising_clipper \<Rightarrow> vertex list \<Rightarrow> real \<Rightarrow> real \<Rightarrow> real \<Rightarrow> real \<Rightarrow> error + cell" where
  "clip_cell_exc pc polygon x y x2 y2 =
     (case pc [(x, y), (x2, y), (x2, y2), (x, y2)] (map (\<lambda>v. (fst v, fst (snd v))) polygon) of
        None \<Rightarrow> Inl ClipperException
      | Some solution \<Rightarrow>
          (case add_color polygon solution of
             Inl e \<Rightarrow> Inl e
           | Inr solution' \<Rightarrow>
               Inr \<lparr>boundingBoxX = x, boundingBoxY = y,
                    boundingBoxWidth = x2 - x, boundingBoxHeight = y2 - y,
                    vertices = solution'\<rparr>))"

partial_function (option) clip_loop_y_exc ::
  "raising_clipper \<Rightarrow> vertex list \<Rightarrow> bounding_box \<Rightarrow> real \<Rightarrow> bool \<Rightarrow> real \<Rightarrow> real \<Rightarrow> real
     \<Rightarrow> cell list \<Rightarrow> (error + cell list) option" where
  "clip_loop_y_exc pc polygon bb grid_size optimize x x2 y output =
     (if y < bb_top bb + bb_height bb then
        (case clip_cell_exc pc polygon x y x2 (min (y + grid_size) (bb_top bb + bb_height bb)) of
           Inl e \<Rightarrow> Some (Inl e)
         | Inr c \<Rightarrow>
             clip_loop_y_exc pc polygon bb grid_size optimize x x2 (y + grid_size)
               (if length (vertices c) > 0 \<or> \<not> optimize then output @ [c] else output))
      else Some (Inr output))"

partial_function (option) clip_loop_x_exc ::
  "raising_clipper \<Rightarrow> vertex list \<Rightarrow> bounding_box \<Rightarrow> real \<Rightarrow> bool \<Rightarrow> real
     \<Rightarrow> cell list \<Rightarrow> (error + cell list) option" where
  "clip_loop_x_exc pc polygon bb grid_size optimize x output =
     (if x < bb_left bb + bb_width bb then
        Option.bind
          (clip_loop_y_exc pc polygon bb grid_size optimize x
             (min (x + grid_size) (bb_left bb + bb_width bb)) (bb_top bb) output)
          (\<lambda>r. case r of
                  Inl e \<Rightarrow> Some (Inl e)
                | Inr output' \<Rightarrow>
                    clip_loop_x_exc pc polygon bb grid_size optimize (x + grid_size) output')
      else Some (Inr output))"

definition clip_polygon_exc ::
  "raising_clipper \<Rightarrow> vertex list \<Rightarrow> bounding_box \<Rightarrow> real \<Rightarrow> bool \<Rightarrow> (error + cell list) option" where
  "clip_polygon_exc pc polygon bb grid_size optimize =
     clip_loop_x_exc pc polygon bb grid_size optimize (bb_left bb) []"

text \<open>
  \<^verbatim>\<open>clip_polygons\<close>. For every cell \<open>val\<close> of a later pass, each of its rings is
  appended to \<^verbatim>\<open>output1[idx]['vertices']\<close>; \<^verbatim>\<open>output1[idx]\<close> is read only when
  \<open>val\<close> has a ring, and raises IndexError when \<open>idx\<close> is out of range.
\<close>

fun append_rings :: "cell list \<Rightarrow> nat \<Rightarrow> cell list \<Rightarrow> error + cell list" where
  "append_rings output1 idx [] = Inr output1"
| "append_rings output1 idx (val # rest) =
     (if vertices val = [] then append_rings output1 (Suc idx) rest
      else if idx < length output1 then
        append_rings
          (output1[idx := (output1 ! idx)\<lparr>vertices := vertices (output1 ! idx) @ vertices val\<rparr>])
          (Suc idx) rest
      else Inl IndexError)"

text \<open>The \<^verbatim>\<open>for vertices in polygons\<close> loop with its flag \<^verbatim>\<open>first\<close>.\<close>

fun merge_polygons ::
  "clipper \<Rightarrow> vertex list list \<Rightarrow> bounding_box \<Rightarrow> real \<Rightarrow> bool \<Rightarrow> cell list
     \<Rightarrow> (error + cell list) option" where
  "merge_polygons pc [] bb grid_size first output1 = Some (Inr output1)"
| "merge_polygons pc (polygon # rest) bb grid_size first output1 =
     (if first then merge_polygons pc rest bb grid_size False output1
      else (case clip_polygon pc polygon bb grid_size False of
              None \<Rightarrow> None
            | Some (Inl e) \<Rightarrow> Some (Inl e)
            | Some (Inr output) \<Rightarrow>
                (case append_rings output1 0 output of
                   Inl e \<Rightarrow> Some (Inl e)
                 | Inr output1' \<Rightarrow> merge_polygons pc rest bb grid_size False output1')))"

definition clip_polygons ::
  "clipper \<Rightarrow> vertex list list \<Rightarrow> bounding_box \<Rightarrow> real \<Rightarrow> (error + cell list) option" where
  "clip_polygons pc polygons bb grid_size =
     (case polygons of
        [] \<Rightarrow> Some (Inl IndexError)
      | polygon0 # others \<Rightarrow>
          (case clip_polygon pc polygon0 bb grid_size False of
             None \<Rightarrow> None
           | Some (Inl e) \<Rightarrow> Some (Inl e)
           | Some (Inr output1) \<Rightarrow>
               (case merge_polygons pc polygons bb grid_size True output1 of
                  None \<Rightarrow> None
                | Some (Inl e) \<Rightarrow> Some (Inl e)
                | Some (Inr output1') \<Rightarrow>
                    Some (Inr (filter (\<lambda>val. length (vertices val) > 0) output1')))))"

section \<open>Closed forms of the loops\<close>

text \<open>
  The values a loop variable takes when it starts at \<open>a\<close>, grows by \<open>g\<close> and the loop
  runs while it is below \<open>b\<close>: \<open>a, a + g, a + 2 g, \<dots>\<close>; the list is empty unless
  \<open>0 < g\<close>.
\<close>

function grid_steps :: "real \<Rightarrow> real \<Rightarrow> real \<Rightarrow> real list" where
  "grid_steps a b g = (if 0 < g \<and> a < b then a # grid_steps (a + g) b g else [])"
  by pat_completeness auto
termination
proof (relation "measure (\<lambda>(a, b, g). nat \<lceil>(b - a) / g\<rceil>)")
  show "wf (measure (\<lambda>(a, b, g). nat \<lceil>(b - a) / g\<rceil>))" by simp
next
  fix a b g :: real
  assume h: "0 < g \<and> a < b"
  then have "(b - (a + g)) / g = (b - a) / g - 1" by (simp add: field_simps)
  moreover from h have "0 < (b - a) / g" by simp
  then have "0 < \<lceil>(b - a) / g\<rceil>" by simp
  ultimately show "((a + g, b, g), (a, b, g)) \<in> measure (\<lambda>(a, b, g). nat \<lceil>(b - a) / g\<rceil>)"
    by simp
qed

text \<open>
  Appending the results of the cell bodies in order, up to the first error; a cell is
  kept under the test \<^verbatim>\<open>len(solution) > 0 or not optimize\<close>.
\<close>

fun collect :: "bool \<Rightarrow> (error + cell) list \<Rightarrow> cell list \<Rightarrow> error + cell list" where
  "collect optimize [] output = Inr output"
| "collect optimize (Inl e # rs) output = Inl e"
| "collect optimize (Inr c # rs) output =
     collect optimize rs (if length (vertices c) > 0 \<or> \<not> optimize then output @ [c] else output)"

definition column_cells ::
  "clipper \<Rightarrow> vertex list \<Rightarrow> bounding_box \<Rightarrow> real \<Rightarrow> real \<Rightarrow> real \<Rightarrow> real
     \<Rightarrow> (error + cell) list" where
  "column_cells pc polygon bb g x x2 y =
     map (\<lambda>y. clip_cell pc polygon x y x2 (min (y + g) (bb_top bb + bb_height bb)))
       (grid_steps y (bb_top bb + bb_height bb) g)"

definition grid_results ::
  "clipper \<Rightarrow> vertex list \<Rightarrow> bounding_box \<Rightarrow> real \<Rightarrow> real \<Rightarrow> (error + cell) list" where
  "grid_results pc polygon bb g x =
     concat (map (\<lambda>x. column_cells pc polygon bb g x
                         (min (x + g) (bb_left bb + bb_width bb)) (bb_top bb))
       (grid_steps x (bb_left bb + bb_width bb) g))"

text \<open>
  The cell of the grid that starts at \<open>(x, y)\<close>, for a polygon with a first vertex: its
  frame is clamped to the right and lower edge of the bounding box, its rings are the
  solution of the clipper with the colour of the first vertex on every point.
\<close>

definition colour_of :: "vertex list \<Rightarrow> string" where
  "colour_of polygon = (case polygon of [] \<Rightarrow> [] | v # rest \<Rightarrow> snd (snd v))"

definition grid_cell ::
  "clipper \<Rightarrow> vertex list \<Rightarrow> bounding_box \<Rightarrow> real \<Rightarrow> real \<Rightarrow> real \<Rightarrow> cell" where
  "grid_cell pc polygon bb g x y =
     \<lparr>boundingBoxX = x, boundingBoxY = y,
      boundingBoxWidth = min (x + g) (bb_left bb + bb_width bb) - x,
      boundingBoxHeight = min (y + g) (bb_top bb + bb_height bb) - y,
      vertices =
        map (map (\<lambda>p. (fst p, snd p, colour_of polygon)))
          (pc [(x, y), (min (x + g) (bb_left bb + bb_width bb), y),
               (min (x + g) (bb_left bb + bb_width bb), min (y + g) (bb_top bb + bb_height bb)),
               (x, min (y + g) (bb_top bb + bb_height bb))]
              (map (\<lambda>v. (fst v, fst (snd v))) polygon))\<rparr>"

definition all_cells :: "clipper \<Rightarrow> vertex list \<Rightarrow> bounding_box \<Rightarrow> real \<Rightarrow> cell list" where
  "all_cells pc polygon bb g =
     concat (map (\<lambda>x. map (\<lambda>y. grid_cell pc polygon bb g x y)
                         (grid_steps (bb_top bb) (bb_top bb + bb_height bb) g))
       (grid_steps (bb_left bb) (bb_left bb + bb_width bb) g))"

text \<open>The four bounding-box entries of a cell, and the clip path they stand for.\<close>

definition cell_frame :: "cell \<Rightarrow> real \<times> real \<times> real \<times> real" where
  "cell_frame c = (boundingBoxX c, boundingBoxY c, boundingBoxWidth c, boundingBoxHeight c)"

definition cell_clip :: "cell \<Rightarrow> point list" where
  "cell_clip c =
     [(boundingBoxX c, boundingBoxY c),
      (boundingBoxX c + boundingBoxWidth c, boundingBoxY c),
      (boundingBoxX c + boundingBoxWidth c, boundingBoxY c + boundingBoxHeight c),
      (boundingBoxX c, boundingBoxY c + boundingBoxHeight c)]"

text \<open>
  Membership of a point in the closed rectangle of a cell, in its open interior, and in
  the closed rectangle of the bounding box.
\<close>

definition in_cell :: "cell \<Rightarrow> point \<Rightarrow> bool" where
  "in_cell c p =
     (boundingBoxX c \<le> fst p \<and> fst p \<le> boundingBoxX c + boundingBoxWidth c \<and>
      boundingBoxY c \<le> snd p \<and> snd p \<le> boundingBoxY c + boundingBoxHeight c)"

definition inside_cell :: "cell \<Rightarrow> point \<Rightarrow> bool" where
  "inside_cell c p =
     (boundingBoxX c < fst p \<and> fst p < boundingBoxX c + boundingBoxWidth c \<and>
      boundingBoxY c < snd p \<and> snd p < boundingBoxY c + boundingBoxHeight c)"

definition in_bbox :: "bounding_box \<Rightarrow> point \<Rightarrow> bool" where
  "in_bbox bb p =
     (bb_left bb \<le> fst p \<and> fst p \<le> bb_left bb + bb_width bb \<and>
      bb_top bb \<le> snd p \<and> snd p \<le> bb_top bb + bb_height bb)"

text \<open>
  The order of the cells in the output: a cell comes before another if its column lies
  at least one grid size to the left, or in the same column at least one grid size
  above.
\<close>

definition cell_before :: "real \<Rightarrow> cell \<Rightarrow> cell \<Rightarrow> bool" where
  "cell_before g c d =
     (boundingBoxX c + g \<le> boundingBoxX d
      \<or> boundingBoxX c = boundingBoxX d \<and> boundingBoxY c + g \<le> boundingBoxY d)"

section \<open>ClipMerge as the specification words it\<close>

text \<open>
  One pass of \<^verbatim>\<open>clip_polygon\<close> with \<^verbatim>\<open>optimize=False\<close> per polygon, in order; then, for
  each cell index, the cell of the first pass with the rings of every pass at that
  index concatenated; then the cells without rings are dropped.
\<close>

fun clip_each ::
  "clipper \<Rightarrow> vertex list list \<Rightarrow> bounding_box \<Rightarrow> real \<Rightarrow> (error + cell list list) option" where
  "clip_each pc [] bb g = Some (Inr [])"
| "clip_each pc (polygon # rest) bb g =
     (case clip_polygon pc polygon bb g False of
        None \<Rightarrow> None
      | Some (Inl e) \<Rightarrow> Some (Inl e)
      | Some (Inr out) \<Rightarrow>
          (case clip_each pc rest bb g of
             None \<Rightarrow> None
           | Some (Inl e) \<Rightarrow> Some (Inl e)
           | Some (Inr outs) \<Rightarrow> Some (Inr (out # outs))))"

definition merged_cell :: "cell list \<Rightarrow> cell list list \<Rightarrow> nat \<Rightarrow> cell" where
  "merged_cell out0 outs i = (out0 ! i)\<lparr>vertices := concat (map (\<lambda>out. vertices (out ! i)) outs)\<rparr>"

definition ClipMerge ::
  "clipper \<Rightarrow> vertex list list \<Rightarrow> bounding_box \<Rightarrow> real \<Rightarrow> (error + cell list) option" where
  "ClipMerge pc polygons bb g =
     (case clip_each pc polygons bb g of
        None \<Rightarrow> None
      | Some (Inl e) \<Rightarrow> Some (Inl e)
      | Some (Inr outs) \<Rightarrow>
          (case outs of
             [] \<Rightarrow> Some (Inr [])
           | out0 # rest \<Rightarrow>
               Some (Inr (filter (\<lambda>c. vertices c \<noteq> [])
                            (map (merged_cell out0 outs) [0..<length out0])))))"

text \<open>The effect of one later pass on the accumulated cells, and of all later passes.\<close>

definition merge_cell :: "cell \<Rightarrow> cell \<Rightarrow> cell" where
  "merge_cell c val = c\<lparr>vertices := vertices c @ vertices val\<rparr>"

fun merge_all :: "cell list \<Rightarrow> cell list list \<Rightarrow> cell list" where
  "merge_all output1 [] = output1"
| "merge_all output1 (out # outs) = merge_all (map2 merge_cell output1 out) outs"

section \<open>Sampling as the specification words it\<close>

text \<open>
  The points of one segment: the start point, then the curve at the parameters of the
  arc lengths \<open>d, 2 d, 3 d, \<dots>\<close> below the length of the segment, a parameter outside
  \<open>(0.0001, 0.9999)\<close> being skipped; the interior points only for a segment whose arc
  length differs from the distance of its end points by more than \<open>0.01\<close>.
\<close>

definition interior_points :: "bezier_lib \<Rightarrow> bez \<Rightarrow> real list \<Rightarrow> point list" where
  "interior_points lib bez targets =
     map (bezierpointatt lib bez)
       (filter (\<lambda>t. 1 / 10000 < t \<and> t < 9999 / 10000)
          (map (\<lambda>s. beziertatlength lib bez (s / bezierlength lib bez)) targets))"

definition segment_spec :: "bezier_lib \<Rightarrow> real \<Rightarrow> bez \<Rightarrow> point list" where
  "segment_spec lib d bez =
     bezierpointatt lib bez 0 #
       (if \<bar>point_point_dst (bezierpointatt lib bez 0) (bezierpointatt lib bez 1)
             - bezierlength lib bez\<bar> > 1 / 100
        then interior_points lib bez (grid_steps d (bezierlength lib bez) d)
        else [])"

fun chain_spec :: "bezier_lib \<Rightarrow> real \<Rightarrow> bool \<Rightarrow> cspnode list \<Rightarrow> point list" where
  "chain_spec lib d add_last (sp1 # sp2 # rest) =
     segment_spec lib d (getbez sp1 sp2)
       @ (if rest = [] then (if add_last then [bezierpointatt lib (getbez sp1 sp2) 1] else [])
          else chain_spec lib d add_last (sp2 # rest))"
| "chain_spec lib d add_last csp_sub = []"

section \<open>Concrete instances of the library parameters\<close>

text \<open>
  Modelled from the spec: \<^verbatim>\<open>lib/inkex/bezier.py\<close> is not among the sources. A segment
  is a cubic Bezier curve with start, two controls and end; \<open>cubic_point\<close> evaluates
  it at a parameter.
\<close>

definition cubic_point :: "bez \<Rightarrow> real \<Rightarrow> point" where
  "cubic_point bez t =
     (case bez of ((x0, y0), (x1, y1), (x2, y2), (x3, y3)) \<Rightarrow>
        ((1 - t) ^ 3 * x0 + 3 * (1 - t) ^ 2 * t * x1 + 3 * (1 - t) * t ^ 2 * x2 + t ^ 3 * x3,
         (1 - t) ^ 3 * y0 + 3 * (1 - t) ^ 2 * t * y1 + 3 * (1 - t) * t ^ 2 * y2 + t ^ 3 * y3))"

text \<open>
  The curve \<open>(3 t - t\<^sup>3, 3 t\<^sup>2)\<close> has the control points below, speed \<open>3 (1 + t\<^sup>2)\<close> and
  arc length \<open>3 t + t\<^sup>3\<close> up to \<open>t\<close>: its length is \<open>4\<close>, and the fraction \<open>31/54\<close> of it
  is reached at \<open>t = 2/3\<close>.
\<close>

definition arc_bez :: bez where
  "arc_bez = ((0, 0), (1, 0), (2, 1), (2, 3))"

text \<open>
  Modelled from the spec: \<^verbatim>\<open>lib/inkex/bezier.py\<close> is not among the sources. An instance
  of the three library functions for the concrete inputs below; its arc length is
  exact on straight segments (the distance of the end points) and on \<open>arc_bez\<close>, and
  its inversion is exact at the one fraction evaluated on \<open>arc_bez\<close>.
\<close>

definition sample_lib :: bezier_lib where
  "sample_lib =
     \<lparr>bezierpointatt = cubic_point,
      bezierlength = (\<lambda>bez. if bez = arc_bez then 4
                             else point_point_dst (fst bez) (snd (snd (snd bez)))),
      beziertatlength = (\<lambda>bez l. if bez = arc_bez \<and> l = 31 / 54 then 2 / 3 else l)\<rparr>"

text \<open>
  An instance of the clipper for the concrete inputs below: for a subject that is an
  axis-parallel rectangle, the even-odd intersection with the clip rectangle is the
  rectangle of the overlapping coordinate ranges, or nothing when they do not overlap
  in a region of positive area.
\<close>

fun least :: "real list \<Rightarrow> real" where
  "least [] = 0"
| "least [x] = x"
| "least (x # xs) = min x (least xs)"

fun greatest :: "real list \<Rightarrow> real" where
  "greatest [] = 0"
| "greatest [x] = x"
| "greatest (x # xs) = max x (greatest xs)"

definition box_clipper :: clipper where
  "box_clipper clip subject =
     (if clip = [] \<or> subject = []
         \<or> min (greatest (map fst clip)) (greatest (map fst subject))
              \<le> max (least (map fst clip)) (least (map fst subject))
         \<or> min (greatest (map snd clip)) (greatest (map snd subject))
              \<le> max (least (map snd clip)) (least (map snd subject))
      then []
      else [[(max (least (map fst clip)) (least (map fst subject)),
              max (least (map snd clip)) (least (map snd subject))),
             (min (greatest (map fst clip)) (greatest (map fst subject)),
              max (least (map snd clip)) (least (map snd subject))),
             (min (greatest (map fst clip)) (greatest (map fst subject)),
              min (greatest (map snd clip)) (greatest (map snd subject))),
             (max (least (map fst clip)) (least (map fst subject)),
              min (greatest (map snd clip)) (greatest (map snd subject)))]])"


text \<open>
  An instance of the ear clipper for the concrete inputs below: a convex ring is cut
  into the fan of triangles at its first point.
\<close>

definition fan_earclip :: earclipper where
  "fan_earclip points =
     (case points of [] \<Rightarrow> [] | p0 # ps \<Rightarrow> map (\<lambda>(a, b). (p0, a, b)) (zip ps (tl ps)))"

section \<open>The clip loops in closed form\<close>

declare grid_steps.simps [simp del]

lemma collect_append:
  "collect opt (rs @ rs') out =
     (case collect opt rs out of Inl e \<Rightarrow> Inl e | Inr out' \<Rightarrow> collect opt rs' out')"
  by (induction opt rs out rule: collect.induct) simp_all

lemma collect_map_Inr:
  "collect opt (map Inr cs) out = Inr (out @ filter (\<lambda>c. vertices c \<noteq> [] \<or> \<not> opt) cs)"
  by (induction cs arbitrary: out) simp_all

lemma collect_Inr_D:
  "collect opt rs out = Inr cs \<Longrightarrow> \<exists>ds. rs = map Inr ds"
proof (induction rs arbitrary: out)
  case Nil
  then show ?case by simp
next
  case (Cons r rs)
  show ?case
  proof (cases r)
    case (Inl e)
    with Cons.prems show ?thesis by simp
  next
    case (Inr c)
    with Cons obtain ds where "rs = map Inr ds" by auto
    with Inr have "r # rs = map Inr (c # ds)" by simp
    then show ?thesis by (rule exI)
  qed
qed

lemma clip_loop_y_closed:
  "0 < g \<Longrightarrow> clip_loop_y pc polygon bb g opt x x2 y out =
     Some (collect opt (column_cells pc polygon bb g x x2 y) out)"
proof (induction y "bb_top bb + bb_height bb" g arbitrary: out rule: grid_steps.induct)
  case (1 a g)
  show ?case
  proof (cases "a < bb_top bb + bb_height bb")
    case False
    then show ?thesis
      by (subst clip_loop_y.simps) (simp add: column_cells_def grid_steps.simps [of a])
  next
    case True
    with 1 show ?thesis
      by (subst clip_loop_y.simps)
         (simp add: column_cells_def grid_steps.simps [of a] split: sum.splits)
  qed
qed

lemma clip_loop_x_closed:
  "0 < g \<Longrightarrow> clip_loop_x pc polygon bb g opt x out =
     Some (collect opt (grid_results pc polygon bb g x) out)"
proof (induction x "bb_left bb + bb_width bb" g arbitrary: out rule: grid_steps.induct)
  case (1 a g)
  show ?case
  proof (cases "a < bb_left bb + bb_width bb")
    case False
    then show ?thesis
      by (subst clip_loop_x.simps) (simp add: grid_results_def grid_steps.simps [of a])
  next
    case True
    with 1 show ?thesis
      by (subst clip_loop_x.simps)
         (simp add: grid_results_def grid_steps.simps [of a] clip_loop_y_closed collect_append
            split: sum.splits)
  qed
qed

lemma clip_polygon_closed:
  "0 < g \<Longrightarrow> clip_polygon pc polygon bb g opt =
     Some (collect opt (grid_results pc polygon bb g (bb_left bb)) [])"
  by (simp add: clip_polygon_def clip_loop_x_closed)

lemma map_map_Nil: "concat xss = [] \<Longrightarrow> map (map f) xss = map (\<lambda>xs. []) xss"
  by (induction xss) simp_all

lemma clip_cell_grid_cell:
  "clip_cell pc polygon x y (min (x + g) (bb_left bb + bb_width bb))
       (min (y + g) (bb_top bb + bb_height bb)) = Inr c \<Longrightarrow>
     c = grid_cell pc polygon bb g x y"
  by (auto simp: clip_cell_def add_color_def grid_cell_def colour_of_def map_map_Nil
        split: sum.splits if_splits list.splits)

lemma clip_cell_nonempty:
  "polygon \<noteq> [] \<Longrightarrow> clip_cell pc polygon x y x2 y2 =
     Inr \<lparr>boundingBoxX = x, boundingBoxY = y,
          boundingBoxWidth = x2 - x, boundingBoxHeight = y2 - y,
          vertices = map (map (\<lambda>p. (fst p, snd p, colour_of polygon)))
             (pc [(x, y), (x2, y), (x2, y2), (x, y2)] (map (\<lambda>v. (fst v, fst (snd v))) polygon))\<rparr>"
  by (cases polygon) (simp_all add: clip_cell_def add_color_def colour_of_def map_map_Nil)

lemma grid_results_Inr:
  assumes "\<forall>r \<in> set (grid_results pc polygon bb g (bb_left bb)). \<exists>c. r = Inr c"
  shows "grid_results pc polygon bb g (bb_left bb) = map Inr (all_cells pc polygon bb g)"
proof -
  have "clip_cell pc polygon x y (min (x + g) (bb_left bb + bb_width bb))
          (min (y + g) (bb_top bb + bb_height bb)) = Inr (grid_cell pc polygon bb g x y)"
    if "x \<in> set (grid_steps (bb_left bb) (bb_left bb + bb_width bb) g)"
      and "y \<in> set (grid_steps (bb_top bb) (bb_top bb + bb_height bb) g)" for x y
  proof -
    from that have "clip_cell pc polygon x y (min (x + g) (bb_left bb + bb_width bb))
          (min (y + g) (bb_top bb + bb_height bb)) \<in> set (grid_results pc polygon bb g (bb_left bb))"
      by (auto simp: grid_results_def column_cells_def)
    with assms obtain c where "clip_cell pc polygon x y (min (x + g) (bb_left bb + bb_width bb))
          (min (y + g) (bb_top bb + bb_height bb)) = Inr c" by blast
    then show ?thesis using clip_cell_grid_cell by blast
  qed
  then show ?thesis
    by (simp add: grid_results_def column_cells_def all_cells_def map_concat cong: map_cong)
qed

lemma clip_polygon_cells:
  assumes "0 < g" "polygon \<noteq> []"
  shows "clip_polygon pc polygon bb g opt =
     Some (Inr (filter (\<lambda>c. vertices c \<noteq> [] \<or> \<not> opt) (all_cells pc polygon bb g)))"
proof -
  have "\<forall>r \<in> set (grid_results pc polygon bb g (bb_left bb)). \<exists>c. r = Inr c"
    using assms(2) by (auto simp: grid_results_def column_cells_def clip_cell_nonempty)
  then have "grid_results pc polygon bb g (bb_left bb) = map Inr (all_cells pc polygon bb g)"
    by (rule grid_results_Inr)
  with assms(1) show ?thesis
    by (simp add: clip_polygon_closed collect_map_Inr)
qed

lemma clip_polygon_returns_cells:
  assumes "0 < g" "clip_polygon pc polygon bb g opt = Some (Inr cs)"
  shows "cs = filter (\<lambda>c. vertices c \<noteq> [] \<or> \<not> opt) (all_cells pc polygon bb g)"
proof -
  from assms have c: "collect opt (grid_results pc polygon bb g (bb_left bb)) [] = Inr cs"
    by (simp add: clip_polygon_closed)
  then obtain ds where "grid_results pc polygon bb g (bb_left bb) = map Inr ds"
    using collect_Inr_D by blast
  then have "\<forall>r \<in> set (grid_results pc polygon bb g (bb_left bb)). \<exists>c. r = Inr c" by auto
  then have "grid_results pc polygon bb g (bb_left bb) = map Inr (all_cells pc polygon bb g)"
    by (rule grid_results_Inr)
  with c show ?thesis by (simp add: collect_map_Inr)
qed

section \<open>The frames do not depend on the polygon\<close>

lemma clip_loop_x_no_result:
  assumes "clip_loop_x pc polygon bb g opt x out = Some r"
  shows "g \<le> 0 \<longrightarrow> x < bb_left bb + bb_width bb \<longrightarrow> (\<exists>e. r = Inl e)"
  apply (rule clip_loop_x.raw_induct
      [where P = "\<lambda>pc polygon bb g opt x out r.
           g \<le> 0 \<longrightarrow> x < bb_left bb + bb_width bb \<longrightarrow> (\<exists>e. r = Inl e)"
         and xa = "((((((pc, polygon), bb), g), opt), x), out)" and y = r,
       unfolded prod.case, OF _ assms])
  subgoal for f pc polygon bb g opt x out r
    by (auto split: if_splits sum.splits Option.bind_splits)
  done

lemma clip_polygon_nonpositive_result:
  assumes "g \<le> 0" "clip_polygon pc polygon bb g opt = Some (Inr cs)"
  shows "cs = []"
proof (cases "bb_left bb < bb_left bb + bb_width bb")
  case True
  with assms clip_loop_x_no_result [of pc polygon bb g opt "bb_left bb" "[]" "Inr cs"]
  show ?thesis by (simp add: clip_polygon_def)
next
  case False
  with assms(2) show ?thesis
    unfolding clip_polygon_def by (subst (asm) clip_loop_x.simps) simp
qed

lemma frames_all_cells:
  "map cell_frame (all_cells pc p bb g) = map cell_frame (all_cells pc' q bb g)"
  by (simp add: all_cells_def map_concat comp_def cell_frame_def grid_cell_def)

lemma clip_polygon_frames_aligned:
  assumes "clip_polygon pc p bb g False = Some (Inr cs)"
    and "clip_polygon pc q bb g False = Some (Inr ds)"
  shows "map cell_frame cs = map cell_frame ds"
proof (cases "0 < g")
  case True
  with assms show ?thesis
    using clip_polygon_returns_cells [OF True assms(1)] clip_polygon_returns_cells [OF True assms(2)]
    by (simp add: frames_all_cells)
next
  case False
  then have "g \<le> 0" by simp
  with assms show ?thesis
    using clip_polygon_nonpositive_result by blast
qed

section \<open>Orientation and intersection\<close>

text \<open>
  C4 (as the code has it). For every point list with at least two points,
  \<^verbatim>\<open>ensure_right_pointing_vertices\<close> returns the list unchanged exactly when the
  x-coordinate of the second point is strictly greater than that of the first, and
  the reversed list otherwise; in particular two points of equal x are reversed.
\<close>

theorem ensure_right_pointing_vertices_spec:
  "2 \<le> length vs \<Longrightarrow>
     ensure_right_pointing_vertices vs =
       Inr (if fst (vs ! 1) > fst (vs ! 0) then vs else rev vs)"
proof (cases vs)
  case Nil
  assume "2 \<le> length vs"
  with Nil show ?thesis by simp
next
  case (Cons v0 ws)
  assume len: "2 \<le> length vs"
  with Cons obtain v1 us where "ws = v1 # us" by (cases ws) auto
  with Cons show ?thesis by simp
qed

theorem ensure_right_pointing_vertices_spec_witness:
  "2 \<le> length [(3, 0), (1, 5), (0, 2 :: real)] \<and>
   ensure_right_pointing_vertices [(3, 0), (1, 5), (0, 2)] = Inr [(0, 2), (1, 5), (3, 0)]"
  using ensure_right_pointing_vertices_spec [of "[(3, 0), (1, 5), (0, 2)]"] by simp

text \<open>
  The specification's sentence fails where the first two points have the same
  x-coordinate: it leaves the list unchanged there, the code reverses it.
\<close>

theorem ensure_right_pointing_vertices_equal_x:
  "ensure_right_pointing_vertices [(0, 0), (0, 1)] = Inr [(0, 1), (0, 0)] \<and>
   [(0, 1), (0, 0)] \<noteq> [(0, 0), (0, 1 :: real)]"
  by simp

lemma line_parameters_unique:
  fixes x1 y1 x2 y2 x3 y3 x4 y4 s t :: real
  assumes d: "(y4 - y3) * (x2 - x1) - (x4 - x3) * (y2 - y1) \<noteq> 0"
  shows "(x1 + s * (x2 - x1) = x3 + t * (x4 - x3) \<and> y1 + s * (y2 - y1) = y3 + t * (y4 - y3))
       = (s = ((x4 - x3) * (y1 - y3) - (y4 - y3) * (x1 - x3))
               / ((y4 - y3) * (x2 - x1) - (x4 - x3) * (y2 - y1))
          \<and> t = ((x2 - x1) * (y1 - y3) - (y2 - y1) * (x1 - x3))
               / ((y4 - y3) * (x2 - x1) - (x4 - x3) * (y2 - y1)))"
proof
  assume e: "x1 + s * (x2 - x1) = x3 + t * (x4 - x3) \<and> y1 + s * (y2 - y1) = y3 + t * (y4 - y3)"
  then have "s * ((y4 - y3) * (x2 - x1) - (x4 - x3) * (y2 - y1))
      = (x4 - x3) * (y1 - y3) - (y4 - y3) * (x1 - x3)"
    by algebra
  moreover from e have "t * ((y4 - y3) * (x2 - x1) - (x4 - x3) * (y2 - y1))
      = (x2 - x1) * (y1 - y3) - (y2 - y1) * (x1 - x3)"
    by algebra
  ultimately show "s = ((x4 - x3) * (y1 - y3) - (y4 - y3) * (x1 - x3))
               / ((y4 - y3) * (x2 - x1) - (x4 - x3) * (y2 - y1))
          \<and> t = ((x2 - x1) * (y1 - y3) - (y2 - y1) * (x1 - x3))
               / ((y4 - y3) * (x2 - x1) - (x4 - x3) * (y2 - y1))"
    using d by (simp add: nonzero_eq_divide_eq)
next
  assume "s = ((x4 - x3) * (y1 - y3) - (y4 - y3) * (x1 - x3))
               / ((y4 - y3) * (x2 - x1) - (x4 - x3) * (y2 - y1))
          \<and> t = ((x2 - x1) * (y1 - y3) - (y2 - y1) * (x1 - x3))
               / ((y4 - y3) * (x2 - x1) - (x4 - x3) * (y2 - y1))"
  then have s: "s * ((y4 - y3) * (x2 - x1) - (x4 - x3) * (y2 - y1))
        = (x4 - x3) * (y1 - y3) - (y4 - y3) * (x1 - x3)"
    and t: "t * ((y4 - y3) * (x2 - x1) - (x4 - x3) * (y2 - y1))
        = (x2 - x1) * (y1 - y3) - (y2 - y1) * (x1 - x3)"
    using d by simp_all
  have "(x1 + s * (x2 - x1)) * ((y4 - y3) * (x2 - x1) - (x4 - x3) * (y2 - y1))
      = (x3 + t * (x4 - x3)) * ((y4 - y3) * (x2 - x1) - (x4 - x3) * (y2 - y1))"
    using s t by algebra
  moreover have "(y1 + s * (y2 - y1)) * ((y4 - y3) * (x2 - x1) - (x4 - x3) * (y2 - y1))
      = (y3 + t * (y4 - y3)) * ((y4 - y3) * (x2 - x1) - (x4 - x3) * (y2 - y1))"
    using s t by algebra
  ultimately show "x1 + s * (x2 - x1) = x3 + t * (x4 - x3) \<and> y1 + s * (y2 - y1) = y3 + t * (y4 - y3)"
    using d by simp
qed


text \<open>
  C5. \<^verbatim>\<open>intersect_segments\<close> returns \<^verbatim>\<open>None\<close> exactly when the determinant is zero
  or one of the parameters \<open>ua\<close>, \<open>ub\<close> lies outside \<open>[0, 1]\<close>; otherwise it returns
  \<open>p1 + ua (p2 - p1)\<close>. The determinant is the cross product of the two directions, and
  for a determinant that is not zero \<open>ua\<close> and \<open>ub\<close> are the one pair of parameters at
  which the line through \<open>p1, p2\<close> and the line through \<open>p3, p4\<close> meet: the result is
  \<open>Some p\<close> exactly when \<open>p\<close> lies on both segments. The diagonals of the square of side
  10 meet in \<open>(5, 5)\<close>; a segment that the line of the other one misses gives \<^verbatim>\<open>None\<close>.
\<close>

theorem intersect_segments_spec:
  "(intersect_segments p1 p2 p3 p4 = None) =
      (seg_d p1 p2 p3 p4 = 0
       \<or> seg_ua p1 p2 p3 p4 < 0 \<or> 1 < seg_ua p1 p2 p3 p4
       \<or> seg_ub p1 p2 p3 p4 < 0 \<or> 1 < seg_ub p1 p2 p3 p4)
   \<and> (intersect_segments p1 p2 p3 p4 \<noteq> None) =
      (intersect_segments p1 p2 p3 p4 =
        Some (fst p1 + seg_ua p1 p2 p3 p4 * (fst p2 - fst p1),
              snd p1 + seg_ua p1 p2 p3 p4 * (snd p2 - snd p1)))
   \<and> seg_d p1 p2 p3 p4 =
       (snd p4 - snd p3) * (fst p2 - fst p1) - (fst p4 - fst p3) * (snd p2 - snd p1)
   \<and> (seg_d p1 p2 p3 p4 \<noteq> 0 \<longrightarrow>
        (\<forall>s t. (fst p1 + s * (fst p2 - fst p1) = fst p3 + t * (fst p4 - fst p3)
               \<and> snd p1 + s * (snd p2 - snd p1) = snd p3 + t * (snd p4 - snd p3))
             = (s = seg_ua p1 p2 p3 p4 \<and> t = seg_ub p1 p2 p3 p4)))
   \<and> (seg_d p1 p2 p3 p4 \<noteq> 0 \<longrightarrow>
        (\<forall>p. (intersect_segments p1 p2 p3 p4 = Some p) =
             (\<exists>s t. 0 \<le> s \<and> s \<le> 1 \<and> 0 \<le> t \<and> t \<le> 1
                \<and> p = (fst p1 + s * (fst p2 - fst p1), snd p1 + s * (snd p2 - snd p1))
                \<and> p = (fst p3 + t * (fst p4 - fst p3), snd p3 + t * (snd p4 - snd p3)))))
   \<and> intersect_segments (0, 0) (10, 10) (0, 10) (10, 0) = Some (5, 5)
   \<and> intersect_segments (0, 0) (10, 10) (20, - 10) (30, - 20) = None"
proof -
  have u: "(fst p1 + s * (fst p2 - fst p1) = fst p3 + t * (fst p4 - fst p3)
               \<and> snd p1 + s * (snd p2 - snd p1) = snd p3 + t * (snd p4 - snd p3))
             = (s = seg_ua p1 p2 p3 p4 \<and> t = seg_ub p1 p2 p3 p4)"
    if "seg_d p1 p2 p3 p4 \<noteq> 0" for s t
    using that unfolding seg_d_def seg_ua_def seg_ub_def by (rule line_parameters_unique)
  have g: "(intersect_segments p1 p2 p3 p4 = Some p) =
             (\<exists>s t. 0 \<le> s \<and> s \<le> 1 \<and> 0 \<le> t \<and> t \<le> 1
                \<and> p = (fst p1 + s * (fst p2 - fst p1), snd p1 + s * (snd p2 - snd p1))
                \<and> p = (fst p3 + t * (fst p4 - fst p3), snd p3 + t * (snd p4 - snd p3)))"
    if d: "seg_d p1 p2 p3 p4 \<noteq> 0" for p
  proof
    assume r: "intersect_segments p1 p2 p3 p4 = Some p"
    let ?s = "seg_ua p1 p2 p3 p4" and ?t = "seg_ub p1 p2 p3 p4"
    from r d have b: "0 \<le> ?s" "?s \<le> 1" "0 \<le> ?t" "?t \<le> 1"
      and p: "p = (fst p1 + ?s * (fst p2 - fst p1), snd p1 + ?s * (snd p2 - snd p1))"
      by (auto simp: intersect_segments_def mult.commute split: if_splits)
    from u [OF d, of ?s ?t] p
    have "p = (fst p3 + ?t * (fst p4 - fst p3), snd p3 + ?t * (snd p4 - snd p3))" by simp
    with b p show "\<exists>s t. 0 \<le> s \<and> s \<le> 1 \<and> 0 \<le> t \<and> t \<le> 1
                \<and> p = (fst p1 + s * (fst p2 - fst p1), snd p1 + s * (snd p2 - snd p1))
                \<and> p = (fst p3 + t * (fst p4 - fst p3), snd p3 + t * (snd p4 - snd p3))"
      by blast
  next
    assume "\<exists>s t. 0 \<le> s \<and> s \<le> 1 \<and> 0 \<le> t \<and> t \<le> 1
                \<and> p = (fst p1 + s * (fst p2 - fst p1), snd p1 + s * (snd p2 - snd p1))
                \<and> p = (fst p3 + t * (fst p4 - fst p3), snd p3 + t * (snd p4 - snd p3))"
    then obtain s t where b: "0 \<le> s" "s \<le> 1" "0 \<le> t" "t \<le> 1"
      and p: "p = (fst p1 + s * (fst p2 - fst p1), snd p1 + s * (snd p2 - snd p1))"
      and q: "p = (fst p3 + t * (fst p4 - fst p3), snd p3 + t * (snd p4 - snd p3))"
      by blast
    from p q have "fst p1 + s * (fst p2 - fst p1) = fst p3 + t * (fst p4 - fst p3)
               \<and> snd p1 + s * (snd p2 - snd p1) = snd p3 + t * (snd p4 - snd p3)" by simp
    with u [OF d, of s t] have "s = seg_ua p1 p2 p3 p4" "t = seg_ub p1 p2 p3 p4" by simp_all
    with b p d show "intersect_segments p1 p2 p3 p4 = Some p"
      by (simp add: intersect_segments_def mult.commute)
  qed
  have a: "(intersect_segments p1 p2 p3 p4 = None) =
      (seg_d p1 p2 p3 p4 = 0
       \<or> seg_ua p1 p2 p3 p4 < 0 \<or> 1 < seg_ua p1 p2 p3 p4
       \<or> seg_ub p1 p2 p3 p4 < 0 \<or> 1 < seg_ub p1 p2 p3 p4)"
    by (simp add: intersect_segments_def)
  have b: "(intersect_segments p1 p2 p3 p4 \<noteq> None) =
      (intersect_segments p1 p2 p3 p4 =
        Some (fst p1 + seg_ua p1 p2 p3 p4 * (fst p2 - fst p1),
              snd p1 + seg_ua p1 p2 p3 p4 * (snd p2 - snd p1)))"
    by (simp add: intersect_segments_def mult.commute)
  have c: "intersect_segments (0, 0) (10, 10) (0, 10) (10, 0) = Some (5, 5)"
    by (simp add: intersect_segments_def seg_d_def seg_ua_def seg_ub_def)
  have e: "intersect_segments (0, 0) (10, 10) (20, - 10) (30, - 20) = None"
    by (simp add: intersect_segments_def seg_d_def seg_ua_def seg_ub_def)
  show ?thesis
    using a b c e u g by (simp only: seg_d_def [symmetric]) blast
qed


theorem intersect_segments_spec_witness:
  "seg_d (0, 0) (10, 10) (0, 10) (10, 0) \<noteq> 0
   \<and> seg_ua (0, 0) (10, 10) (0, 10) (10, 0) = 1 / 2
   \<and> seg_ub (0, 0) (10, 10) (0, 10) (10, 0) = 1 / 2
   \<and> (\<exists>s t. 0 \<le> s \<and> s \<le> 1 \<and> 0 \<le> t \<and> t \<le> 1
         \<and> (5, 5) = (0 + s * (10 - 0), 0 + s * (10 - 0 :: real))
         \<and> (5, 5) = (0 + t * (10 - 0), 10 + t * (0 - 10 :: real)))"
proof -
  have d: "seg_d (0, 0) (10, 10) (0, 10) (10, 0) \<noteq> 0" by (simp add: seg_d_def)
  note T = intersect_segments_spec [of "(0, 0)" "(10, 10)" "(0, 10)" "(10, 0)"]
  note g = T [THEN conjunct2, THEN conjunct2, THEN conjunct2, THEN conjunct2, THEN conjunct1,
              rule_format, OF d, of "(5, 5)"]
  note c = T [THEN conjunct2, THEN conjunct2, THEN conjunct2, THEN conjunct2, THEN conjunct2,
              THEN conjunct1]
  from g c have "\<exists>s t. 0 \<le> s \<and> s \<le> 1 \<and> 0 \<le> t \<and> t \<le> 1
         \<and> (5, 5) = (0 + s * (10 - 0), 0 + s * (10 - 0 :: real))
         \<and> (5, 5) = (0 + t * (10 - 0), 10 + t * (0 - 10 :: real))"
    by simp
  with d show ?thesis by (simp add: seg_ua_def seg_ub_def seg_d_def)
qed

section \<open>A grid size that is not positive\<close>

text \<open>
  With a clipper that always returns, the loops for a clipper that may raise are the
  loops used everywhere else in this theory.
\<close>

lemma clip_cell_exc_returning:
  "clip_cell_exc (\<lambda>clip subject. Some (pc clip subject)) polygon x y x2 y2 =
     clip_cell pc polygon x y x2 y2"
  by (simp add: clip_cell_exc_def clip_cell_def)

lemma clip_loop_y_exc_returning_1:
  assumes "clip_loop_y_exc pce polygon bb g opt x x2 y out = Some r"
  shows "pce = (\<lambda>clip subject. Some (pc clip subject)) \<longrightarrow>
           clip_loop_y pc polygon bb g opt x x2 y out = Some r"
  apply (rule clip_loop_y_exc.raw_induct
      [where P = "\<lambda>pce polygon bb g opt x x2 y out r.
           pce = (\<lambda>clip subject. Some (pc clip subject)) \<longrightarrow>
             clip_loop_y pc polygon bb g opt x x2 y out = Some r"
         and xa = "((((((((pce, polygon), bb), g), opt), x), x2), y), out)" and ya = r,
       unfolded prod.case, OF _ assms])
  subgoal for f pce polygon bb g opt x x2 y out r
    by (subst clip_loop_y.simps)
       (auto simp: clip_cell_exc_returning split: if_splits sum.splits)
  done

lemma clip_loop_y_exc_returning_2:
  assumes "clip_loop_y pc polygon bb g opt x x2 y out = Some r"
  shows "clip_loop_y_exc (\<lambda>clip subject. Some (pc clip subject)) polygon bb g opt x x2 y out = Some r"
  apply (rule clip_loop_y.raw_induct
      [where P = "\<lambda>pc polygon bb g opt x x2 y out r.
           clip_loop_y_exc (\<lambda>clip subject. Some (pc clip subject)) polygon bb g opt x x2 y out = Some r"
         and xa = "((((((((pc, polygon), bb), g), opt), x), x2), y), out)" and ya = r,
       unfolded prod.case, OF _ assms])
  subgoal for f pc polygon bb g opt x x2 y out r
    by (subst clip_loop_y_exc.simps)
       (auto simp: clip_cell_exc_returning split: if_splits sum.splits)
  done

lemma clip_loop_y_exc_returning:
  "clip_loop_y_exc (\<lambda>clip subject. Some (pc clip subject)) polygon bb g opt x x2 y out =
     clip_loop_y pc polygon bb g opt x x2 y out"
proof (cases "clip_loop_y pc polygon bb g opt x x2 y out")
  case (Some r)
  then show ?thesis by (simp add: clip_loop_y_exc_returning_2)
next
  case None
  show ?thesis
  proof (cases "clip_loop_y_exc (\<lambda>clip subject. Some (pc clip subject)) polygon bb g opt x x2 y out")
    case None
    with \<open>clip_loop_y pc polygon bb g opt x x2 y out = None\<close> show ?thesis by simp
  next
    case (Some r)
    from clip_loop_y_exc_returning_1 [OF Some, of pc] None show ?thesis by simp
  qed
qed

lemma clip_loop_x_exc_returning_1:
  assumes "clip_loop_x_exc pce polygon bb g opt x out = Some r"
  shows "pce = (\<lambda>clip subject. Some (pc clip subject)) \<longrightarrow>
           clip_loop_x pc polygon bb g opt x out = Some r"
  apply (rule clip_loop_x_exc.raw_induct
      [where P = "\<lambda>pce polygon bb g opt x out r.
           pce = (\<lambda>clip subject. Some (pc clip subject)) \<longrightarrow>
             clip_loop_x pc polygon bb g opt x out = Some r"
         and xa = "((((((pce, polygon), bb), g), opt), x), out)" and y = r,
       unfolded prod.case, OF _ assms])
  subgoal for f pce polygon bb g opt x out r
    by (subst clip_loop_x.simps)
       (auto simp: clip_loop_y_exc_returning split: if_splits sum.splits Option.bind_splits)
  done

lemma clip_loop_x_exc_returning_2:
  assumes "clip_loop_x pc polygon bb g opt x out = Some r"
  shows "clip_loop_x_exc (\<lambda>clip subject. Some (pc clip subject)) polygon bb g opt x out = Some r"
  apply (rule clip_loop_x.raw_induct
      [where P = "\<lambda>pc polygon bb g opt x out r.
           clip_loop_x_exc (\<lambda>clip subject. Some (pc clip subject)) polygon bb g opt x out = Some r"
         and xa = "((((((pc, polygon), bb), g), opt), x), out)" and y = r,
       unfolded prod.case, OF _ assms])
  subgoal for f pc polygon bb g opt x out r
    by (subst clip_loop_x_exc.simps)
       (auto simp: clip_loop_y_exc_returning split: if_splits sum.splits Option.bind_splits)
  done

lemma clip_polygon_exc_returning:
  "clip_polygon_exc (\<lambda>clip subject. Some (pc clip subject)) polygon bb g opt =
     clip_polygon pc polygon bb g opt"
proof (cases "clip_polygon pc polygon bb g opt")
  case (Some r)
  then show ?thesis
    by (simp add: clip_polygon_def clip_polygon_exc_def clip_loop_x_exc_returning_2)
next
  case None
  show ?thesis
  proof (cases "clip_polygon_exc (\<lambda>clip subject. Some (pc clip subject)) polygon bb g opt")
    case None
    with \<open>clip_polygon pc polygon bb g opt = None\<close> show ?thesis by simp
  next
    case (Some r)
    then have "clip_loop_x_exc (\<lambda>clip subject. Some (pc clip subject)) polygon bb g opt (bb_left bb) []
        = Some r" by (simp add: clip_polygon_exc_def)
    from clip_loop_x_exc_returning_1 [OF this, of pc] None show ?thesis
      by (simp add: clip_polygon_def)
  qed
qed


















section \<open>Grid clipping: tiling, optimisation, alignment\<close>

lemma cell_clip_grid_cell:
  "cell_clip (grid_cell pc polygon bb g x y) =
     [(x, y), (min (x + g) (bb_left bb + bb_width bb), y),
      (min (x + g) (bb_left bb + bb_width bb), min (y + g) (bb_top bb + bb_height bb)),
      (x, min (y + g) (bb_top bb + bb_height bb))]"
  by (simp add: cell_clip_def grid_cell_def)

lemma vertices_grid_cell:
  "(vertices (grid_cell pc polygon bb g x y) = []) =
     (pc (cell_clip (grid_cell pc polygon bb g x y)) (map (\<lambda>v. (fst v, fst (snd v))) polygon) = [])"
  unfolding cell_clip_grid_cell by (simp add: grid_cell_def)

lemma vertices_all_cells:
  "c \<in> set (all_cells pc polygon bb g) \<Longrightarrow>
     (vertices c = []) = (pc (cell_clip c) (map (\<lambda>v. (fst v, fst (snd v))) polygon) = [])"
  using vertices_grid_cell by (auto simp: all_cells_def)

text \<open>
  C7. For a positive grid size and a polygon with a first vertex, \<^verbatim>\<open>clip_polygon\<close>
  returns. With \<^verbatim>\<open>optimize=False\<close> it emits every cell of the grid, with
  \<^verbatim>\<open>optimize=True\<close> exactly those cells whose intersection with the polygon, as the
  clipper computes it on the rectangle of the cell, is not empty. If the intersection
  is empty on every cell (a polygon outside the bounding box), the optimised call
  yields no cell and every cell of the other call has an empty ring list.
\<close>

theorem clip_polygon_optimize:
  assumes "0 < grid_size" and "polygon \<noteq> []"
  shows "clip_polygon pc polygon bb grid_size False = Some (Inr (all_cells pc polygon bb grid_size))
       \<and> clip_polygon pc polygon bb grid_size True =
           Some (Inr (filter (\<lambda>c. pc (cell_clip c) (map (\<lambda>v. (fst v, fst (snd v))) polygon) \<noteq> [])
                        (all_cells pc polygon bb grid_size)))
       \<and> ((\<forall>c \<in> set (all_cells pc polygon bb grid_size).
              pc (cell_clip c) (map (\<lambda>v. (fst v, fst (snd v))) polygon) = []) \<longrightarrow>
            clip_polygon pc polygon bb grid_size True = Some (Inr [])
            \<and> (\<forall>c \<in> set (all_cells pc polygon bb grid_size). vertices c = []))"
proof -
  have f: "filter (\<lambda>c. vertices c \<noteq> [] \<or> \<not> True) (all_cells pc polygon bb grid_size) =
           filter (\<lambda>c. pc (cell_clip c) (map (\<lambda>v. (fst v, fst (snd v))) polygon) \<noteq> [])
             (all_cells pc polygon bb grid_size)"
    by (rule filter_cong) (simp_all add: vertices_all_cells)
  have t: "clip_polygon pc polygon bb grid_size True =
           Some (Inr (filter (\<lambda>c. pc (cell_clip c) (map (\<lambda>v. (fst v, fst (snd v))) polygon) \<noteq> [])
                        (all_cells pc polygon bb grid_size)))"
    using clip_polygon_cells [OF assms, of pc bb True] f by simp
  have n: "clip_polygon pc polygon bb grid_size False = Some (Inr (all_cells pc polygon bb grid_size))"
    using clip_polygon_cells [OF assms, of pc bb False] by simp
  show ?thesis
    using t n by (simp add: vertices_all_cells filter_empty_conv)
qed

theorem clip_polygon_optimize_witness:
  "(0 :: real) < 5
   \<and> [(20, 20, ''#00ff00ff''), (30, 20, ''#00ff00ff''), (30, 30, ''#00ff00ff''),
       (20, 30, ''#00ff00ff'')] \<noteq> ([] :: vertex list)
   \<and> clip_polygon box_clipper
        [(20, 20, ''#00ff00ff''), (30, 20, ''#00ff00ff''), (30, 30, ''#00ff00ff''),
         (20, 30, ''#00ff00ff'')]
        \<lparr>bb_left = 0, bb_top = 0, bb_width = 10, bb_height = 10\<rparr> 5 True = Some (Inr [])
   \<and> clip_polygon box_clipper
        [(20, 20, ''#00ff00ff''), (30, 20, ''#00ff00ff''), (30, 30, ''#00ff00ff''),
         (20, 30, ''#00ff00ff'')]
        \<lparr>bb_left = 0, bb_top = 0, bb_width = 10, bb_height = 10\<rparr> 5 False =
       Some (Inr [\<lparr>boundingBoxX = 0, boundingBoxY = 0, boundingBoxWidth = 5,
                    boundingBoxHeight = 5, vertices = []\<rparr>,
                  \<lparr>boundingBoxX = 0, boundingBoxY = 5, boundingBoxWidth = 5,
                    boundingBoxHeight = 5, vertices = []\<rparr>,
                  \<lparr>boundingBoxX = 5, boundingBoxY = 0, boundingBoxWidth = 5,
                    boundingBoxHeight = 5, vertices = []\<rparr>,
                  \<lparr>boundingBoxX = 5, boundingBoxY = 5, boundingBoxWidth = 5,
                    boundingBoxHeight = 5, vertices = []\<rparr>])"
  using clip_polygon_optimize
    [of 5 "[(20, 20, ''#00ff00ff''), (30, 20, ''#00ff00ff''), (30, 30, ''#00ff00ff''),
            (20, 30, ''#00ff00ff'')]" box_clipper
        "\<lparr>bb_left = 0, bb_top = 0, bb_width = 10, bb_height = 10\<rparr>"]
  by (simp add: all_cells_def grid_cell_def grid_steps.simps box_clipper_def cell_clip_def)

text \<open>
  C9. For a positive grid size and the same bounding box, two runs of \<^verbatim>\<open>clip_polygon\<close>
  with \<^verbatim>\<open>optimize=False\<close> on two polygons both return, give the same number of cells
  and, position by position, the same four bounding-box entries.
\<close>

theorem clip_polygon_frame_independent:
  assumes "0 < grid_size" and "polygon1 \<noteq> []" and "polygon2 \<noteq> []"
  shows "\<exists>cs ds. clip_polygon pc polygon1 bb grid_size False = Some (Inr cs)
           \<and> clip_polygon pc polygon2 bb grid_size False = Some (Inr ds)
           \<and> length cs = length ds
           \<and> map cell_frame cs = map cell_frame ds"
proof -
  have "map cell_frame (all_cells pc polygon1 bb grid_size)
      = map cell_frame (all_cells pc polygon2 bb grid_size)"
    by (rule frames_all_cells)
  moreover from this have "length (all_cells pc polygon1 bb grid_size)
      = length (all_cells pc polygon2 bb grid_size)"
    by (rule map_eq_imp_length_eq)
  ultimately show ?thesis
    using clip_polygon_cells [OF assms(1) assms(2), of pc bb False]
      clip_polygon_cells [OF assms(1) assms(3), of pc bb False]
    by simp
qed

theorem clip_polygon_frame_independent_witness:
  "(0 :: real) < 5
   \<and> [(0, 0, ''#ff0000ff''), (10, 0, ''#ff0000ff''), (10, 10, ''#ff0000ff''),
       (0, 10, ''#ff0000ff'')] \<noteq> ([] :: vertex list)
   \<and> [(2, 2, ''#0000ffff''), (4, 2, ''#0000ffff''), (4, 4, ''#0000ffff'')] \<noteq> ([] :: vertex list)
   \<and> (\<exists>cs ds.
        clip_polygon box_clipper
          [(0, 0, ''#ff0000ff''), (10, 0, ''#ff0000ff''), (10, 10, ''#ff0000ff''),
           (0, 10, ''#ff0000ff'')]
          \<lparr>bb_left = 0, bb_top = 0, bb_width = 10, bb_height = 10\<rparr> 5 False = Some (Inr cs)
      \<and> clip_polygon box_clipper
          [(2, 2, ''#0000ffff''), (4, 2, ''#0000ffff''), (4, 4, ''#0000ffff'')]
          \<lparr>bb_left = 0, bb_top = 0, bb_width = 10, bb_height = 10\<rparr> 5 False = Some (Inr ds)
      \<and> length cs = length ds
      \<and> map cell_frame cs = map cell_frame ds)"
  using clip_polygon_frame_independent
    [of 5 "[(0, 0, ''#ff0000ff''), (10, 0, ''#ff0000ff''), (10, 10, ''#ff0000ff''),
            (0, 10, ''#ff0000ff'')]"
        "[(2, 2, ''#0000ffff''), (4, 2, ''#0000ffff''), (4, 4, ''#0000ffff'')]" box_clipper
        "\<lparr>bb_left = 0, bb_top = 0, bb_width = 10, bb_height = 10\<rparr>"]
  by simp

section \<open>The grid covers the bounding box\<close>

lemma grid_steps_bounds:
  "s \<in> set (grid_steps a b g) \<Longrightarrow> a \<le> s \<and> s < b"
proof (induction a b g rule: grid_steps.induct)
  case (1 a b g)
  show ?case
  proof (cases "0 < g \<and> a < b")
    case True
    with 1 show ?thesis by (auto simp: grid_steps.simps [of a b g])
  next
    case False
    with 1 show ?thesis by (simp add: grid_steps.simps [of a b g])
  qed
qed

lemma grid_steps_cover:
  "0 < g \<Longrightarrow> a < b \<Longrightarrow>
     (\<exists>s \<in> set (grid_steps a b g). s \<le> p \<and> p \<le> min (s + g) b) = (a \<le> p \<and> p \<le> b)"
proof (induction a b g rule: grid_steps.induct)
  case (1 a b g)
  show ?case
  proof (cases "a + g < b")
    case True
    with 1 have "(\<exists>s \<in> set (grid_steps (a + g) b g). s \<le> p \<and> p \<le> min (s + g) b)
        = (a + g \<le> p \<and> p \<le> b)" by simp
    with 1(2,3) True show ?thesis
      by (auto simp: grid_steps.simps [of a b g])
  next
    case False
    then have "grid_steps (a + g) b g = []" by (simp add: grid_steps.simps [of "a + g" b g])
    with 1(2,3) False show ?thesis
      by (auto simp: grid_steps.simps [of a b g])
  qed
qed

lemma grid_steps_sorted:
  "sorted_wrt (\<lambda>s t. s + g \<le> t) (grid_steps a b g)"
proof (induction a b g rule: grid_steps.induct)
  case (1 a b g)
  show ?case
  proof (cases "0 < g \<and> a < b")
    case True
    with 1 show ?thesis
      using grid_steps_bounds [of _ "a + g" b g] by (auto simp: grid_steps.simps [of a b g])
  next
    case False
    then have "grid_steps a b g = []" by (subst grid_steps.simps) auto
    then show ?thesis by simp
  qed
qed

lemma sorted_wrt_concat_map:
  assumes "sorted_wrt Q xs"
    and "\<And>x. x \<in> set xs \<Longrightarrow> sorted_wrt R (f x)"
    and "\<And>x x' a b. Q x x' \<Longrightarrow> a \<in> set (f x) \<Longrightarrow> b \<in> set (f x') \<Longrightarrow> R a b"
  shows "sorted_wrt R (concat (map f xs))"
  using assms
proof (induction xs)
  case Nil
  then show ?case by simp
next
  case (Cons x xs)
  then show ?case by (simp add: sorted_wrt_append) blast
qed

lemma all_cells_sorted: "sorted_wrt (cell_before g) (all_cells pc polygon bb g)"
  unfolding all_cells_def
proof (rule sorted_wrt_concat_map [where Q = "\<lambda>s t. s + g \<le> t"])
  show "sorted_wrt (\<lambda>s t. s + g \<le> t) (grid_steps (bb_left bb) (bb_left bb + bb_width bb) g)"
    by (rule grid_steps_sorted)
next
  fix x
  have "sorted_wrt (\<lambda>s t. s + g \<le> t) (grid_steps (bb_top bb) (bb_top bb + bb_height bb) g)"
    by (rule grid_steps_sorted)
  then show "sorted_wrt (cell_before g)
      (map (grid_cell pc polygon bb g x) (grid_steps (bb_top bb) (bb_top bb + bb_height bb) g))"
    by (auto simp: sorted_wrt_map cell_before_def grid_cell_def elim: sorted_wrt_mono_rel [rotated])
next
  fix x x' :: real and a b
  assume "x + g \<le> x'"
    and "a \<in> set (map (grid_cell pc polygon bb g x) (grid_steps (bb_top bb) (bb_top bb + bb_height bb) g))"
    and "b \<in> set (map (grid_cell pc polygon bb g x') (grid_steps (bb_top bb) (bb_top bb + bb_height bb) g))"
  then show "cell_before g a b"
    by (auto simp: cell_before_def grid_cell_def)
qed

lemma all_cells_size:
  assumes "c \<in> set (all_cells pc polygon bb g)" "0 < g"
  shows "boundingBoxWidth c = min g (bb_left bb + bb_width bb - boundingBoxX c)
       \<and> boundingBoxHeight c = min g (bb_top bb + bb_height bb - boundingBoxY c)
       \<and> 0 < boundingBoxWidth c \<and> 0 < boundingBoxHeight c"
proof -
  from assms(1) obtain x y where x: "x \<in> set (grid_steps (bb_left bb) (bb_left bb + bb_width bb) g)"
    and y: "y \<in> set (grid_steps (bb_top bb) (bb_top bb + bb_height bb) g)"
    and c: "c = grid_cell pc polygon bb g x y"
    by (auto simp: all_cells_def)
  from x have "x < bb_left bb + bb_width bb" using grid_steps_bounds by blast
  moreover from y have "y < bb_top bb + bb_height bb" using grid_steps_bounds by blast
  ultimately show ?thesis using c assms(2) by (auto simp: grid_cell_def min_def)
qed

lemma all_cells_disjoint:
  assumes "0 < g" "i < j" "j < length (all_cells pc polygon bb g)"
  shows "\<not> (inside_cell (all_cells pc polygon bb g ! i) p \<and> inside_cell (all_cells pc polygon bb g ! j) p)"
proof -
  let ?cs = "all_cells pc polygon bb g"
  have b: "cell_before g (?cs ! i) (?cs ! j)"
    using all_cells_sorted assms(2,3) by (rule sorted_wrt_nth_less)
  have "?cs ! i \<in> set ?cs" using assms by simp
  then have "boundingBoxWidth (?cs ! i) \<le> g \<and> boundingBoxHeight (?cs ! i) \<le> g"
    using all_cells_size [OF _ assms(1)] by (simp add: min_def)
  with b show ?thesis
    by (auto simp: cell_before_def inside_cell_def)
qed

lemma in_cell_grid_cell:
  "in_cell (grid_cell pc polygon bb g x y) p =
     ((x \<le> fst p \<and> fst p \<le> min (x + g) (bb_left bb + bb_width bb))
      \<and> (y \<le> snd p \<and> snd p \<le> min (y + g) (bb_top bb + bb_height bb)))"
  by (auto simp: in_cell_def grid_cell_def)

lemma all_cells_cover:
  assumes "0 < g" "0 < bb_width bb" "0 < bb_height bb"
  shows "(\<exists>c \<in> set (all_cells pc polygon bb g). in_cell c p) = in_bbox bb p"
proof -
  have "(\<exists>c \<in> set (all_cells pc polygon bb g). in_cell c p) =
    ((\<exists>x \<in> set (grid_steps (bb_left bb) (bb_left bb + bb_width bb) g).
         x \<le> fst p \<and> fst p \<le> min (x + g) (bb_left bb + bb_width bb))
     \<and> (\<exists>y \<in> set (grid_steps (bb_top bb) (bb_top bb + bb_height bb) g).
         y \<le> snd p \<and> snd p \<le> min (y + g) (bb_top bb + bb_height bb)))"
  proof -
    have "(\<exists>c \<in> set (all_cells pc polygon bb g). in_cell c p) =
      (\<exists>x \<in> set (grid_steps (bb_left bb) (bb_left bb + bb_width bb) g).
       \<exists>y \<in> set (grid_steps (bb_top bb) (bb_top bb + bb_height bb) g).
         in_cell (grid_cell pc polygon bb g x y) p)"
      by (auto simp: all_cells_def)
    also have "\<dots> = ((\<exists>x \<in> set (grid_steps (bb_left bb) (bb_left bb + bb_width bb) g).
         x \<le> fst p \<and> fst p \<le> min (x + g) (bb_left bb + bb_width bb))
     \<and> (\<exists>y \<in> set (grid_steps (bb_top bb) (bb_top bb + bb_height bb) g).
         y \<le> snd p \<and> snd p \<le> min (y + g) (bb_top bb + bb_height bb)))"
      unfolding in_cell_grid_cell by blast
    finally show ?thesis .
  qed
  also have "\<dots> = in_bbox bb p"
  proof -
    have X: "(\<exists>x \<in> set (grid_steps (bb_left bb) (bb_left bb + bb_width bb) g).
         x \<le> fst p \<and> fst p \<le> min (x + g) (bb_left bb + bb_width bb))
       = (bb_left bb \<le> fst p \<and> fst p \<le> bb_left bb + bb_width bb)"
      using assms by (intro grid_steps_cover) simp_all
    have Y: "(\<exists>y \<in> set (grid_steps (bb_top bb) (bb_top bb + bb_height bb) g).
         y \<le> snd p \<and> snd p \<le> min (y + g) (bb_top bb + bb_height bb))
       = (bb_top bb \<le> snd p \<and> snd p \<le> bb_top bb + bb_height bb)"
      using assms by (intro grid_steps_cover) simp_all
    show ?thesis unfolding X Y in_bbox_def by blast
  qed
  finally show ?thesis .
qed

text \<open>
  C8. For a positive grid size and a bounding box of positive width and height, the
  call with \<^verbatim>\<open>optimize=False\<close> returns cells whose closed rectangles cover exactly the
  bounding box, whose open interiors are pairwise disjoint, and whose width and height
  are the grid size clamped to the right and lower edge of the bounding box.
\<close>

theorem clip_polygon_grid_coverage:
  assumes "0 < grid_size" and "0 < bb_width bb" and "0 < bb_height bb" and "polygon \<noteq> []"
  shows "\<exists>cs. clip_polygon pc polygon bb grid_size False = Some (Inr cs)
     \<and> (\<forall>p. in_bbox bb p = (\<exists>c \<in> set cs. in_cell c p))
     \<and> (\<forall>i j p. i < j \<longrightarrow> j < length cs \<longrightarrow> \<not> (inside_cell (cs ! i) p \<and> inside_cell (cs ! j) p))
     \<and> (\<forall>c \<in> set cs.
           boundingBoxWidth c = min grid_size (bb_left bb + bb_width bb - boundingBoxX c)
         \<and> boundingBoxHeight c = min grid_size (bb_top bb + bb_height bb - boundingBoxY c)
         \<and> 0 < boundingBoxWidth c \<and> 0 < boundingBoxHeight c)"
proof -
  have "clip_polygon pc polygon bb grid_size False = Some (Inr (all_cells pc polygon bb grid_size))"
    using clip_polygon_cells [OF assms(1) assms(4), of pc bb False] by simp
  moreover have "\<forall>p. in_bbox bb p = (\<exists>c \<in> set (all_cells pc polygon bb grid_size). in_cell c p)"
    using all_cells_cover [OF assms(1,2,3)] by simp
  moreover have "\<forall>i j p. i < j \<longrightarrow> j < length (all_cells pc polygon bb grid_size) \<longrightarrow>
      \<not> (inside_cell (all_cells pc polygon bb grid_size ! i) p
         \<and> inside_cell (all_cells pc polygon bb grid_size ! j) p)"
    using all_cells_disjoint [OF assms(1)] by blast
  moreover have "\<forall>c \<in> set (all_cells pc polygon bb grid_size).
           boundingBoxWidth c = min grid_size (bb_left bb + bb_width bb - boundingBoxX c)
         \<and> boundingBoxHeight c = min grid_size (bb_top bb + bb_height bb - boundingBoxY c)
         \<and> 0 < boundingBoxWidth c \<and> 0 < boundingBoxHeight c"
    using all_cells_size [OF _ assms(1)] by blast
  ultimately show ?thesis by blast
qed

theorem clip_polygon_grid_coverage_witness:
  "(0 :: real) < 5
   \<and> 0 < bb_width \<lparr>bb_left = 0, bb_top = 0, bb_width = 12, bb_height = 7\<rparr>
   \<and> 0 < bb_height \<lparr>bb_left = 0, bb_top = 0, bb_width = 12, bb_height = 7\<rparr>
   \<and> [(0, 0, ''#ff0000ff''), (12, 0, ''#ff0000ff''), (12, 7, ''#ff0000ff''),
       (0, 7, ''#ff0000ff'')] \<noteq> ([] :: vertex list)
   \<and> (\<exists>cs. clip_polygon box_clipper
              [(0, 0, ''#ff0000ff''), (12, 0, ''#ff0000ff''), (12, 7, ''#ff0000ff''),
               (0, 7, ''#ff0000ff'')]
              \<lparr>bb_left = 0, bb_top = 0, bb_width = 12, bb_height = 7\<rparr> 5 False = Some (Inr cs)
     \<and> (\<forall>p. in_bbox \<lparr>bb_left = 0, bb_top = 0, bb_width = 12, bb_height = 7\<rparr> p
             = (\<exists>c \<in> set cs. in_cell c p))
     \<and> (\<forall>i j p. i < j \<longrightarrow> j < length cs \<longrightarrow> \<not> (inside_cell (cs ! i) p \<and> inside_cell (cs ! j) p))
     \<and> (\<forall>c \<in> set cs.
           boundingBoxWidth c = min 5 (12 - boundingBoxX c)
         \<and> boundingBoxHeight c = min 5 (7 - boundingBoxY c)
         \<and> 0 < boundingBoxWidth c \<and> 0 < boundingBoxHeight c))"
  using clip_polygon_grid_coverage
    [of 5 "\<lparr>bb_left = 0, bb_top = 0, bb_width = 12, bb_height = 7\<rparr>"
        "[(0, 0, ''#ff0000ff''), (12, 0, ''#ff0000ff''), (12, 7, ''#ff0000ff''),
          (0, 7, ''#ff0000ff'')]" box_clipper]
  by simp

section \<open>Merging several shapes\<close>

lemma merge_cell_empty: "vertices val = [] \<Longrightarrow> merge_cell c val = c"
  by (simp add: merge_cell_def)

lemma append_rings_nth:
  "idx + length out \<le> length o1 \<Longrightarrow>
   \<exists>res. append_rings o1 idx out = Inr res \<and> length res = length o1
     \<and> (\<forall>i < length o1. res ! i =
           (if idx \<le> i \<and> i < idx + length out then merge_cell (o1 ! i) (out ! (i - idx)) else o1 ! i))"
proof (induction out arbitrary: o1 idx)
  case Nil
  then show ?case by auto
next
  case (Cons val rest)
  let ?o1 = "o1[idx := merge_cell (o1 ! idx) val]"
  have eq: "append_rings o1 idx (val # rest) = append_rings ?o1 (Suc idx) rest"
    using Cons.prems by (auto simp: merge_cell_def)
  from Cons.prems have "Suc idx + length rest \<le> length ?o1" by simp
  from Cons.IH [OF this] obtain res where r: "append_rings ?o1 (Suc idx) rest = Inr res"
    "length res = length ?o1"
    "\<forall>i < length ?o1. res ! i =
        (if Suc idx \<le> i \<and> i < Suc idx + length rest
         then merge_cell (?o1 ! i) (rest ! (i - Suc idx)) else ?o1 ! i)"
    by blast
  have "\<forall>i < length o1. res ! i =
           (if idx \<le> i \<and> i < idx + length (val # rest)
            then merge_cell (o1 ! i) ((val # rest) ! (i - idx)) else o1 ! i)"
  proof (intro allI impI)
    fix i assume i: "i < length o1"
    show "res ! i = (if idx \<le> i \<and> i < idx + length (val # rest)
            then merge_cell (o1 ! i) ((val # rest) ! (i - idx)) else o1 ! i)"
    proof (cases "i = idx")
      case True
      with i r(3) show ?thesis by simp
    next
      case False
      with i r(3) show ?thesis by (auto simp: nth_Cons' Suc_diff_Suc)
    qed
  qed
  with eq r show ?case by simp
qed

lemma append_rings_map2:
  assumes "length out = length o1"
  shows "append_rings o1 0 out = Inr (map2 merge_cell o1 out)"
proof -
  from assms have "0 + length out \<le> length o1" by simp
  from append_rings_nth [OF this] obtain res where r: "append_rings o1 0 out = Inr res"
    "length res = length o1"
    "\<forall>i < length o1. res ! i =
        (if 0 \<le> i \<and> i < 0 + length out then merge_cell (o1 ! i) (out ! (i - 0)) else o1 ! i)"
    by blast
  have "res = map2 merge_cell o1 out"
    using r(2,3) assms by (intro nth_equalityI) simp_all
  with r(1) show ?thesis by simp
qed


lemma merge_polygons_spec:
  assumes "\<And>p out. clip_polygon pc p bb g False = Some (Inr out) \<Longrightarrow> length out = n"
    and "length o1 = n"
  shows "merge_polygons pc ps bb g False o1 =
     (case clip_each pc ps bb g of
        None \<Rightarrow> None
      | Some (Inl e) \<Rightarrow> Some (Inl e)
      | Some (Inr outs) \<Rightarrow> Some (Inr (merge_all o1 outs)))"
  using assms(2)
proof (induction ps arbitrary: o1)
  case Nil
  then show ?case by simp
next
  case (Cons p ps)
  show ?case
  proof (cases "clip_polygon pc p bb g False")
    case None
    then show ?thesis by simp
  next
    case (Some r)
    show ?thesis
    proof (cases r)
      case (Inl e)
      with Some show ?thesis by simp
    next
      case (Inr out)
      with Some have c: "clip_polygon pc p bb g False = Some (Inr out)" by simp
      then have l: "length out = length o1" using assms(1) Cons.prems by simp
      then have a: "append_rings o1 0 out = Inr (map2 merge_cell o1 out)"
        by (rule append_rings_map2)
      have "length (map2 merge_cell o1 out) = n" using l Cons.prems by simp
      from Cons.IH [OF this] c a show ?thesis
        by (simp split: option.splits sum.splits)
    qed
  qed
qed

lemma merge_all_nth:
  "\<forall>out \<in> set outs. length out = length o1 \<Longrightarrow>
     merge_all o1 outs =
       map (\<lambda>i. (o1 ! i)\<lparr>vertices := vertices (o1 ! i) @ concat (map (\<lambda>out. vertices (out ! i)) outs)\<rparr>)
         [0..<length o1]"
proof (induction outs arbitrary: o1)
  case Nil
  then show ?case by (simp add: map_nth)
next
  case (Cons out outs)
  let ?m = "map2 merge_cell o1 out"
  from Cons.prems have l: "length out = length o1" "length ?m = length o1" by simp_all
  with Cons.prems have "\<forall>out \<in> set outs. length out = length ?m" by simp
  from Cons.IH [OF this] l have "merge_all ?m outs =
      map (\<lambda>i. (?m ! i)\<lparr>vertices := vertices (?m ! i) @ concat (map (\<lambda>out. vertices (out ! i)) outs)\<rparr>)
        [0..<length o1]" by simp
  also have "\<dots> = map (\<lambda>i. (o1 ! i)\<lparr>vertices := vertices (o1 ! i)
        @ concat (map (\<lambda>out. vertices (out ! i)) (out # outs))\<rparr>) [0..<length o1]"
    using l by (intro map_cong) (simp_all add: merge_cell_def)
  finally show ?case by simp
qed

lemma clip_each_results:
  "clip_each pc ps bb g = Some (Inr outs) \<Longrightarrow>
     \<forall>out \<in> set outs. \<exists>p. clip_polygon pc p bb g False = Some (Inr out)"
proof (induction ps arbitrary: outs)
  case Nil
  then show ?case by simp
next
  case (Cons p ps)
  then show ?case
    by (auto split: option.splits sum.splits)
qed

lemma clip_polygons_ClipMerge:
  assumes "polygons \<noteq> []"
  shows "clip_polygons pc polygons bb g = ClipMerge pc polygons bb g"
proof -
  from assms obtain p0 rest where ps: "polygons = p0 # rest" by (cases polygons) auto
  show ?thesis
  proof (cases "clip_polygon pc p0 bb g False")
    case None
    with ps show ?thesis by (simp add: clip_polygons_def ClipMerge_def)
  next
    case (Some r)
    show ?thesis
    proof (cases r)
      case (Inl e)
      with Some ps show ?thesis by (simp add: clip_polygons_def ClipMerge_def)
    next
      case (Inr out1)
      with Some have c: "clip_polygon pc p0 bb g False = Some (Inr out1)" by simp
      have len: "length out = length out1" if "clip_polygon pc p bb g False = Some (Inr out)" for p out
        using clip_polygon_frames_aligned [OF that c] by (rule map_eq_imp_length_eq)
      have m: "merge_polygons pc rest bb g False out1 =
         (case clip_each pc rest bb g of
            None \<Rightarrow> None
          | Some (Inl e) \<Rightarrow> Some (Inl e)
          | Some (Inr outs) \<Rightarrow> Some (Inr (merge_all out1 outs)))"
        by (rule merge_polygons_spec [where n = "length out1"]) (simp_all add: len)
      show ?thesis
      proof (cases "clip_each pc rest bb g")
        case None
        with ps c m show ?thesis by (simp add: clip_polygons_def ClipMerge_def)
      next
        case (Some q)
        show ?thesis
        proof (cases q)
          case (Inl e)
          with Some ps c m show ?thesis by (simp add: clip_polygons_def ClipMerge_def)
        next
          case (Inr outs)
          with Some have ce: "clip_each pc rest bb g = Some (Inr outs)" by simp
          have "\<forall>out \<in> set outs. length out = length out1"
            using clip_each_results [OF ce] len by blast
          then have "merge_all out1 outs = map (merged_cell out1 (out1 # outs)) [0..<length out1]"
            by (simp add: merge_all_nth merged_cell_def)
          with ps c m ce show ?thesis
            by (simp add: clip_polygons_def ClipMerge_def)
        qed
      qed
    qed
  qed
qed

text \<open>
  C6. For a non-empty list of polygons \<^verbatim>\<open>clip_polygons\<close> is \<open>ClipMerge\<close>: one pass with
  \<^verbatim>\<open>optimize=False\<close> per polygon, the rings of all passes concatenated cell index by
  cell index (rings are appended, never united), the cells left without rings dropped.
\<close>

theorem clip_polygons_is_ClipMerge:
  "polygons \<noteq> [] \<Longrightarrow> clip_polygons pc polygons bb grid_size = ClipMerge pc polygons bb grid_size"
  by (rule clip_polygons_ClipMerge)

theorem clip_polygons_is_ClipMerge_witness:
  "[[(0, 0, ''#ff0000ff''), (4, 0, ''#ff0000ff''), (4, 4, ''#ff0000ff''), (0, 4, ''#ff0000ff'')],
    [(2, 2, ''#0000ffff''), (8, 2, ''#0000ffff''), (8, 4, ''#0000ffff''), (2, 4, ''#0000ffff'')]]
     \<noteq> ([] :: vertex list list)
   \<and> clip_polygons box_clipper
       [[(0, 0, ''#ff0000ff''), (4, 0, ''#ff0000ff''), (4, 4, ''#ff0000ff''), (0, 4, ''#ff0000ff'')],
        [(2, 2, ''#0000ffff''), (8, 2, ''#0000ffff''), (8, 4, ''#0000ffff''), (2, 4, ''#0000ffff'')]]
       \<lparr>bb_left = 0, bb_top = 0, bb_width = 10, bb_height = 10\<rparr> 5
     = Some (Inr
        [\<lparr>boundingBoxX = 0, boundingBoxY = 0, boundingBoxWidth = 5, boundingBoxHeight = 5,
           vertices =
             [[(0, 0, ''#ff0000ff''), (4, 0, ''#ff0000ff''), (4, 4, ''#ff0000ff''),
               (0, 4, ''#ff0000ff'')],
              [(2, 2, ''#0000ffff''), (5, 2, ''#0000ffff''), (5, 4, ''#0000ffff''),
               (2, 4, ''#0000ffff'')]]\<rparr>,
         \<lparr>boundingBoxX = 5, boundingBoxY = 0, boundingBoxWidth = 5, boundingBoxHeight = 5,
           vertices =
             [[(5, 2, ''#0000ffff''), (8, 2, ''#0000ffff''), (8, 4, ''#0000ffff''),
               (5, 4, ''#0000ffff'')]]\<rparr>])"
  using clip_polygons_is_ClipMerge
    [of "[[(0, 0, ''#ff0000ff''), (4, 0, ''#ff0000ff''), (4, 4, ''#ff0000ff''), (0, 4, ''#ff0000ff'')],
        [(2, 2, ''#0000ffff''), (8, 2, ''#0000ffff''), (8, 4, ''#0000ffff''), (2, 4, ''#0000ffff'')]]"
       box_clipper "\<lparr>bb_left = 0, bb_top = 0, bb_width = 10, bb_height = 10\<rparr>" 5]
  by (simp add: ClipMerge_def clip_polygon_cells all_cells_def grid_cell_def grid_steps.simps
        box_clipper_def merged_cell_def colour_of_def)

lemma clip_each_returns:
  "0 < g \<Longrightarrow> \<forall>p \<in> set ps. p \<noteq> [] \<Longrightarrow> \<exists>outs. clip_each pc ps bb g = Some (Inr outs)"
  by (induction ps) (auto simp: clip_polygon_cells)

lemma ClipMerge_returns:
  "0 < g \<Longrightarrow> \<forall>p \<in> set ps. p \<noteq> [] \<Longrightarrow> \<exists>cs. ClipMerge pc ps bb g = Some (Inr cs)"
  using clip_each_returns [of g ps pc bb]
  by (auto simp: ClipMerge_def split: list.splits)

text \<open>
  C10. \<^verbatim>\<open>clip_polygons\<close> reads \<^verbatim>\<open>polygons[0]\<close> before anything else. On the empty list
  this is an IndexError, not an empty list of cells. On a non-empty list the read is in
  bounds, the call goes on with the first polygon; with a positive grid size and
  polygons that have a first vertex it returns a list of cells.
\<close>

theorem clip_polygons_first_access:
  "clip_polygons pc [] bb grid_size = Some (Inl IndexError)
   \<and> clip_polygons pc [] bb grid_size \<noteq> Some (Inr [])
   \<and> (polygons \<noteq> [] \<longrightarrow>
        0 < length polygons
      \<and> clip_polygons pc polygons bb grid_size =
          (case clip_polygon pc (polygons ! 0) bb grid_size False of
             None \<Rightarrow> None
           | Some (Inl e) \<Rightarrow> Some (Inl e)
           | Some (Inr output1) \<Rightarrow>
               (case merge_polygons pc polygons bb grid_size True output1 of
                  None \<Rightarrow> None
                | Some (Inl e) \<Rightarrow> Some (Inl e)
                | Some (Inr output1') \<Rightarrow>
                    Some (Inr (filter (\<lambda>val. length (vertices val) > 0) output1')))))
   \<and> (polygons \<noteq> [] \<longrightarrow> 0 < grid_size \<longrightarrow> (\<forall>p \<in> set polygons. p \<noteq> []) \<longrightarrow>
        (\<exists>cs. clip_polygons pc polygons bb grid_size = Some (Inr cs)))"
proof -
  have "\<exists>cs. clip_polygons pc polygons bb grid_size = Some (Inr cs)"
    if "polygons \<noteq> []" "0 < grid_size" "\<forall>p \<in> set polygons. p \<noteq> []"
    using that ClipMerge_returns [of grid_size polygons pc bb]
    by (simp add: clip_polygons_ClipMerge)
  moreover have "clip_polygons pc [] bb grid_size = Some (Inl IndexError)"
    by (simp add: clip_polygons_def)
  moreover have "polygons \<noteq> [] \<longrightarrow>
        0 < length polygons
      \<and> clip_polygons pc polygons bb grid_size =
          (case clip_polygon pc (polygons ! 0) bb grid_size False of
             None \<Rightarrow> None
           | Some (Inl e) \<Rightarrow> Some (Inl e)
           | Some (Inr output1) \<Rightarrow>
               (case merge_polygons pc polygons bb grid_size True output1 of
                  None \<Rightarrow> None
                | Some (Inl e) \<Rightarrow> Some (Inl e)
                | Some (Inr output1') \<Rightarrow>
                    Some (Inr (filter (\<lambda>val. length (vertices val) > 0) output1'))))"
    by (cases polygons) (auto simp: clip_polygons_def)
  ultimately show ?thesis by simp
qed

theorem clip_polygons_first_access_witness:
  "[[(0, 0, ''#ff0000ff''), (4, 0, ''#ff0000ff''), (4, 4, ''#ff0000ff'')]] \<noteq> ([] :: vertex list list)
   \<and> (0 :: real) < 5
   \<and> [(0, 0, ''#ff0000ff''), (4, 0, ''#ff0000ff''), (4, 4, ''#ff0000ff'')] \<noteq> ([] :: vertex list)
   \<and> clip_polygons box_clipper [] \<lparr>bb_left = 0, bb_top = 0, bb_width = 10, bb_height = 10\<rparr> 5
        = Some (Inl IndexError)
   \<and> (\<exists>cs. clip_polygons box_clipper
              [[(0, 0, ''#ff0000ff''), (4, 0, ''#ff0000ff''), (4, 4, ''#ff0000ff'')]]
              \<lparr>bb_left = 0, bb_top = 0, bb_width = 10, bb_height = 10\<rparr> 5 = Some (Inr cs))"
  using clip_polygons_first_access
      [of box_clipper "\<lparr>bb_left = 0, bb_top = 0, bb_width = 10, bb_height = 10\<rparr>" 5
        "[[(0, 0, ''#ff0000ff''), (4, 0, ''#ff0000ff''), (4, 4, ''#ff0000ff'')]]",
       THEN conjunct1]
    clip_polygons_first_access
      [of box_clipper "\<lparr>bb_left = 0, bb_top = 0, bb_width = 10, bb_height = 10\<rparr>" 5
        "[[(0, 0, ''#ff0000ff''), (4, 0, ''#ff0000ff''), (4, 4, ''#ff0000ff'')]]",
       THEN conjunct2, THEN conjunct2, THEN conjunct2]
  by simp

section \<open>Sampling by distance\<close>

lemma grid_steps_multiples:
  "0 < g \<Longrightarrow> grid_steps a b g = map (\<lambda>k. a + real k * g) [0..<nat \<lceil>(b - a) / g\<rceil>]"
proof (induction a b g rule: grid_steps.induct)
  case (1 a b g)
  show ?case
  proof (cases "a < b")
    case False
    with 1(2) have "(b - a) / g \<le> 0" by (simp add: divide_nonpos_pos)
    then have "nat \<lceil>(b - a) / g\<rceil> = 0" by simp
    with False show ?thesis by (simp add: grid_steps.simps [of a b g])
  next
    case True
    let ?n = "nat \<lceil>(b - a) / g\<rceil>"
    from True 1(2) have pos: "0 < (b - a) / g" by simp
    then have n: "0 < ?n" by simp
    have "(b - (a + g)) / g = (b - a) / g - 1" using 1(2) by (simp add: field_simps)
    then have m: "nat \<lceil>(b - (a + g)) / g\<rceil> = ?n - 1" by simp
    from n have "[0..<?n] = 0 # map Suc [0..<?n - 1]"
      by (metis One_nat_def Suc_pred map_Suc_upt upt_conv_Cons)
    then have "map (\<lambda>k. a + real k * g) [0..<?n]
        = a # map (\<lambda>k. (a + g) + real k * g) [0..<?n - 1]"
      by (simp add: comp_def algebra_simps)
    with 1 True m show ?thesis by (simp add: grid_steps.simps [of a b g])
  qed
qed

lemma interior_points_Cons:
  "interior_points lib bez (s # ss) =
     (if 1 / 10000 < beziertatlength lib bez (s / bezierlength lib bez)
         \<and> beziertatlength lib bez (s / bezierlength lib bez) < 9999 / 10000
      then [bezierpointatt lib bez (beziertatlength lib bez (s / bezierlength lib bez))] else [])
     @ interior_points lib bez ss"
  by (simp add: interior_points_def)

lemma dst_loop_closed:
  "0 < d \<Longrightarrow> 0 \<le> pl \<Longrightarrow> ll = bezierlength lib bez - pl \<Longrightarrow>
     dst_loop lib bez d (bezierlength lib bez) d ll pl pts =
       Some (Inr (pts @ interior_points lib bez (grid_steps (pl + d) (bezierlength lib bez) d)))"
proof (induction "pl + d" "bezierlength lib bez" d arbitrary: pl ll pts rule: grid_steps.induct)
  case (1 g)
  show ?case
  proof (cases "pl + g < bezierlength lib bez")
    case False
    with 1(2-) show ?thesis
      by (subst dst_loop.simps)
         (simp add: grid_steps.simps [of "pl + g"] interior_points_def)
  next
    case True
    define L where "L = bezierlength lib bez"
    define t where "t = beziertatlength lib bez ((pl + g) / L)"
    define pts' where
      "pts' = (if 1 / 10000 < t \<and> t < 9999 / 10000 then pts @ [bezierpointatt lib bez t] else pts)"
    from True 1(2-) have nz: "L \<noteq> 0" and lt: "g < ll" by (simp_all add: L_def)
    have s: "dst_loop lib bez g L g ll pl pts = dst_loop lib bez g L g (ll - g) (pl + g) pts'"
      using nz lt by (subst dst_loop.simps) (simp add: pts'_def t_def)
    have ih: "dst_loop lib bez g L g (ll - g) (pl + g) pts' =
       Some (Inr (pts' @ interior_points lib bez (grid_steps (pl + g + g) L g)))"
      unfolding L_def using 1(1) [of "pl + g" "ll - g" pts'] 1(2-) True by simp
    have gs: "grid_steps (pl + g) L g = (pl + g) # grid_steps (pl + g + g) L g"
      using True 1(2) by (subst grid_steps.simps) (simp add: L_def)
    have "pts' @ interior_points lib bez (grid_steps (pl + g + g) L g)
        = pts @ interior_points lib bez ((pl + g) # grid_steps (pl + g + g) L g)"
      unfolding interior_points_Cons by (simp add: pts'_def t_def L_def)
    with s ih gs show ?thesis by (simp add: L_def)
  qed
qed

lemma segment_points_closed:
  "0 < d \<Longrightarrow> segment_points lib d bez pts = Some (Inr (pts @ segment_spec lib d bez))"
  using dst_loop_closed [of d 0 "bezierlength lib bez" lib bez "pts @ [bezierpointatt lib bez 0]"]
  by (simp add: segment_points_def segment_spec_def)

lemma csp_walk_closed:
  "0 < d \<Longrightarrow> csp_walk lib d add_last csp pts = Some (Inr (pts @ chain_spec lib d add_last csp))"
proof (induction lib d add_last csp arbitrary: pts rule: chain_spec.induct)
  case (1 lib d add_last sp1 sp2 rest)
  show ?case
  proof (cases rest)
    case Nil
    with 1(2) show ?thesis by (simp add: segment_points_closed)
  next
    case (Cons sp3 rest')
    then have ne: "rest \<noteq> []" by simp
    note ih = "1.IH" [OF ne "1.prems"]
    from ne "1.prems" show ?thesis by (simp add: segment_points_closed ih)
  qed
qed simp_all


lemma sqrt_13_bound: "1 / 100 < \<bar>sqrt 13 - 4\<bar>"
proof -
  have "sqrt 13 < 39 / 10" by (rule real_less_lsqrt) (simp_all add: power2_eq_square)
  then show ?thesis by simp
qed

text \<open>
  A segment whose reported arc length is within \<open>0.01\<close> of the distance of its end
  points contributes its start point only, whatever the spacing and whatever the three
  library functions are.
\<close>

lemma straight_segment_two_points:
  assumes "\<bar>point_point_dst (bezierpointatt lib (getbez sp1 sp2) 0)
               (bezierpointatt lib (getbez sp1 sp2) 1)
             - bezierlength lib (getbez sp1 sp2)\<bar> \<le> 1 / 100"
  shows "csp_sub_points_dst lib [sp1, sp2] point_dst True =
     Some (Inr [bezierpointatt lib (getbez sp1 sp2) 0, bezierpointatt lib (getbez sp1 sp2) 1])"
  using assms by (simp add: csp_sub_points_dst_def segment_points_def)

text \<open>
  C1 (as the code has it). For a positive spacing \<^verbatim>\<open>csp_sub_points_dst\<close> returns, for
  every chain, the points of its segments in order: the start point of a segment, then,
  only if the arc length of the segment differs from the distance of its end points by
  more than \<open>0.01\<close>, the curve at the parameters of the arc lengths \<open>d, 2 d, \<dots>\<close> below
  the length of the segment, a parameter outside \<open>(0.0001, 0.9999)\<close> being skipped; the
  end point of the last segment closes the list if \<^verbatim>\<open>add_last\<close> is set. On the straight
  segment of Scenario B the guard is false and the result is the two end points.
\<close>

theorem csp_sub_points_dst_spec:
  "(0 < point_dst \<longrightarrow>
      csp_sub_points_dst lib csp_sub point_dst add_last =
        Some (Inr (chain_spec lib point_dst add_last csp_sub)))
   \<and> csp_sub_points_dst sample_lib
        [((0, 0), (0, 0), (3, 0)), ((7, 0), (10, 0), (10, 0))] 2 True
      = Some (Inr [(0, 0), (10, 0)])"
proof
  show "0 < point_dst \<longrightarrow>
      csp_sub_points_dst lib csp_sub point_dst add_last =
        Some (Inr (chain_spec lib point_dst add_last csp_sub))"
    using csp_walk_closed [of point_dst lib add_last csp_sub "[]"]
    by (simp add: csp_sub_points_dst_def)
  show "csp_sub_points_dst sample_lib
        [((0, 0), (0, 0), (3, 0)), ((7, 0), (10, 0), (10, 0))] 2 True
      = Some (Inr [(0, 0), (10, 0)])"
    by (simp add: csp_sub_points_dst_def segment_points_def sample_lib_def getbez_def
          arc_bez_def cubic_point_def point_point_dst_def)
qed

theorem csp_sub_points_dst_spec_witness:
  "(0 :: real) < 62 / 27
   \<and> csp_sub_points_dst sample_lib
        [((0, 0), (0, 0), (1, 0)), ((2, 1), (2, 3), (2, 3))] (62 / 27) True
      = Some (Inr [(0, 0), (46 / 27, 4 / 3), (2, 3)])"
  using csp_sub_points_dst_spec
    [of "62 / 27" sample_lib "[((0, 0), (0, 0), (1, 0)), ((2, 1), (2, 3), (2, 3))]" True,
     THEN conjunct1]
    sqrt_13_bound
  by (simp add: segment_spec_def interior_points_def grid_steps.simps sample_lib_def getbez_def
        arc_bez_def cubic_point_def point_point_dst_def power2_eq_square power3_eq_cube)

text \<open>
  The specification's Scenario B does not hold on the code: the straight segment from \<open>(0, 0)\<close> to
  \<open>(10, 0)\<close> with controls \<open>(3, 0)\<close> and \<open>(7, 0)\<close>, spacing \<open>2\<close> and \<^verbatim>\<open>add_last\<close> set, gives
  the two end points and none of the points at \<open>x = 2, 4, 6, 8\<close>.
\<close>

theorem csp_sub_points_dst_scenario_B:
  "csp_sub_points_dst sample_lib
     [((0, 0), (0, 0), (3, 0)), ((7, 0), (10, 0), (10, 0))] 2 True
     = Some (Inr [(0, 0), (10, 0)])
   \<and> csp_sub_points_dst sample_lib
     [((0, 0), (0, 0), (3, 0)), ((7, 0), (10, 0), (10, 0))] 2 True
     \<noteq> Some (Inr [(0, 0), (2, 0), (4, 0), (6, 0), (8, 0), (10, 0)])"
  by (simp add: csp_sub_points_dst_def segment_points_def sample_lib_def getbez_def
        arc_bez_def cubic_point_def point_point_dst_def)

section \<open>Flattening the rings of a cell\<close>

lemma group_indicies_rebased:
  "n < length obs \<Longrightarrow> (i, j, k) \<in> set (obj_indicies (obs ! n)) \<Longrightarrow>
     (i + (start + length (concat (map obj_vertices (take n obs)))),
      j + (start + length (concat (map obj_vertices (take n obs)))),
      k + (start + length (concat (map obj_vertices (take n obs)))))
     \<in> set (group_indicies start obs)"
proof (induction obs arbitrary: n start)
  case Nil
  then show ?case by simp
next
  case (Cons ob obs)
  show ?case
  proof (cases n)
    case 0
    with Cons.prems have "(i, j, k) \<in> set (obj_indicies ob)" by simp
    then have "(\<lambda>(i, j, k). (i + start, j + start, k + start)) (i, j, k)
        \<in> (\<lambda>(i, j, k). (i + start, j + start, k + start)) ` set (obj_indicies ob)"
      by (rule imageI)
    with 0 show ?thesis by simp
  next
    case (Suc m)
    with Cons.prems have "m < length obs" "(i, j, k) \<in> set (obj_indicies (obs ! m))" by simp_all
    from Cons.IH [OF this, of "start + length (obj_vertices ob)"] Suc show ?thesis
      by (simp add: add.assoc)
  qed
qed

lemma concat_nth_offset:
  "n < length xss \<Longrightarrow> i < length (xss ! n) \<Longrightarrow>
     concat xss ! (i + length (concat (take n xss))) = xss ! n ! i"
proof (induction xss arbitrary: n)
  case Nil
  then show ?case by simp
next
  case (Cons xs xss)
  then show ?case by (cases n) (simp_all add: nth_append)
qed

text \<open>
  In the shape-group path a triple of the \<open>n\<close>-th object appears in the index list
  shifted by the number of vertices of the objects before it, and a shifted index that
  was in range for its ring selects the same vertex in the concatenated buffer.
\<close>

lemma flatten_group_rebased:
  assumes "n < length (objects clip)" and "(i, j, k) \<in> set (obj_indicies (objects clip ! n))"
    and "i < length (obj_vertices (objects clip ! n))"
  shows "\<exists>s. (i + s, j + s, k + s) \<in> set (mesh_indicies (flatten_group clip))
           \<and> mesh_vertices (flatten_group clip) ! (i + s) = obj_vertices (objects clip ! n) ! i"
proof -
  let ?s = "length (concat (map obj_vertices (take n (objects clip))))"
  have "(i + ?s, j + ?s, k + ?s) \<in> set (mesh_indicies (flatten_group clip))"
    using group_indicies_rebased [OF assms(1,2), of 0] by (simp add: flatten_group_def)
  moreover have "mesh_vertices (flatten_group clip) ! (i + ?s) = obj_vertices (objects clip ! n) ! i"
    using concat_nth_offset [of n "map obj_vertices (objects clip)" i] assms(1,3)
    by (simp add: flatten_group_def take_map)
  ultimately show ?thesis by blast
qed

text \<open>
  C2. Both export paths flatten the rings of a cell into one vertex buffer and one index
  list, and the specification has both re-base the triples of each ring. The single-shape path
  does not: on a cell with two rings of four vertices, the triples of the second ring
  come out as \<open>(0, 1, 2)\<close> and \<open>(0, 2, 3)\<close> and select vertices of the first ring, where
  the shape-group path gives \<open>(4, 5, 6)\<close> and \<open>(4, 6, 7)\<close> on the same cell. The cell
  is the lower strip of a U-shaped polygon, triangulated ring by ring.
\<close>

theorem flatten_single_not_rebased:
  "triangulate_polygon fan_earclip
     [\<lparr>boundingBoxX = 0, boundingBoxY = 3, boundingBoxWidth = 3, boundingBoxHeight = 1,
       vertices =
         [[(0, 3, ''#ff0000ff''), (1, 3, ''#ff0000ff''), (1, 4, ''#ff0000ff''),
           (0, 4, ''#ff0000ff'')],
          [(2, 3, ''#ff0000ff''), (3, 3, ''#ff0000ff''), (3, 4, ''#ff0000ff''),
           (2, 4, ''#ff0000ff'')]]\<rparr>]
     = Inr
     [\<lparr>boundingBoxX = 0, boundingBoxY = 3, boundingBoxWidth = 3, boundingBoxHeight = 1,
      objects =
        [\<lparr>obj_vertices = [(0, 3, ''#ff0000ff''), (1, 3, ''#ff0000ff''), (1, 4, ''#ff0000ff''),
                          (0, 4, ''#ff0000ff'')],
          obj_indicies = [(0, 1, 2), (0, 2, 3)]\<rparr>,
         \<lparr>obj_vertices = [(2, 3, ''#ff0000ff''), (3, 3, ''#ff0000ff''), (3, 4, ''#ff0000ff''),
                          (2, 4, ''#ff0000ff'')],
          obj_indicies = [(0, 1, 2), (0, 2, 3)]\<rparr>]\<rparr>]
   \<and> mesh_indicies (flatten_single
     \<lparr>boundingBoxX = 0, boundingBoxY = 3, boundingBoxWidth = 3, boundingBoxHeight = 1,
      objects =
        [\<lparr>obj_vertices = [(0, 3, ''#ff0000ff''), (1, 3, ''#ff0000ff''), (1, 4, ''#ff0000ff''),
                          (0, 4, ''#ff0000ff'')],
          obj_indicies = [(0, 1, 2), (0, 2, 3)]\<rparr>,
         \<lparr>obj_vertices = [(2, 3, ''#ff0000ff''), (3, 3, ''#ff0000ff''), (3, 4, ''#ff0000ff''),
                          (2, 4, ''#ff0000ff'')],
          obj_indicies = [(0, 1, 2), (0, 2, 3)]\<rparr>]\<rparr>)
     = [(0, 1, 2), (0, 2, 3), (0, 1, 2), (0, 2, 3)]
   \<and> mesh_indicies (flatten_group
     \<lparr>boundingBoxX = 0, boundingBoxY = 3, boundingBoxWidth = 3, boundingBoxHeight = 1,
      objects =
        [\<lparr>obj_vertices = [(0, 3, ''#ff0000ff''), (1, 3, ''#ff0000ff''), (1, 4, ''#ff0000ff''),
                          (0, 4, ''#ff0000ff'')],
          obj_indicies = [(0, 1, 2), (0, 2, 3)]\<rparr>,
         \<lparr>obj_vertices = [(2, 3, ''#ff0000ff''), (3, 3, ''#ff0000ff''), (3, 4, ''#ff0000ff''),
                          (2, 4, ''#ff0000ff'')],
          obj_indicies = [(0, 1, 2), (0, 2, 3)]\<rparr>]\<rparr>)
     = [(0, 1, 2), (0, 2, 3), (4, 5, 6), (4, 6, 7)]
   \<and> mesh_vertices (flatten_single
     \<lparr>boundingBoxX = 0, boundingBoxY = 3, boundingBoxWidth = 3, boundingBoxHeight = 1,
      objects =
        [\<lparr>obj_vertices = [(0, 3, ''#ff0000ff''), (1, 3, ''#ff0000ff''), (1, 4, ''#ff0000ff''),
                          (0, 4, ''#ff0000ff'')],
          obj_indicies = [(0, 1, 2), (0, 2, 3)]\<rparr>,
         \<lparr>obj_vertices = [(2, 3, ''#ff0000ff''), (3, 3, ''#ff0000ff''), (3, 4, ''#ff0000ff''),
                          (2, 4, ''#ff0000ff'')],
          obj_indicies = [(0, 1, 2), (0, 2, 3)]\<rparr>]\<rparr>)
     = [(0, 3, ''#ff0000ff''), (1, 3, ''#ff0000ff''), (1, 4, ''#ff0000ff''), (0, 4, ''#ff0000ff''),
        (2, 3, ''#ff0000ff''), (3, 3, ''#ff0000ff''), (3, 4, ''#ff0000ff''), (2, 4, ''#ff0000ff'')]"
  by (simp add: flatten_single_def flatten_group_def triangulate_ring_def fan_earclip_def)

end
